theory Spec2Isabelle
  imports Complex_Main "HOL-Library.Sublist"
begin

section \<open>Binary64 arithmetic\<close>

text \<open>
  Python floats and the entries of a numpy \<open>float64\<close> array are IEEE binary64 numbers.
  A finite binary64 number is a real \<open>m * 2 ^ e\<close> with \<open>\<bar>m\<bar> < 2 ^ 53\<close> and
  \<open>- 1074 \<le> e\<close>; every arithmetic operation returns the exact result rounded to the nearest
  such number, ties going to the even significand. \<open>fl\<close> is that rounding. Infinities and
  NaN are not modelled: \<open>fl\<close> agrees with binary64 below \<open>2 ^ 1024\<close> in magnitude, and the
  notebook's numbers are far below it.
\<close>

definition rne :: "real \<Rightarrow> int" where
  "rne x = (let f = \<lfloor>x\<rfloor>; d = x - of_int f
            in if d < 1 / 2 then f
               else if 1 / 2 < d then f + 1
               else if even f then f else f + 1)"

definition expo :: "real \<Rightarrow> int" where
  "expo x = max (\<lfloor>log 2 \<bar>x\<bar>\<rfloor> - 52) (- 1074)"

definition fl :: "real \<Rightarrow> real" where
  "fl x = (if x = 0 then 0
           else of_int (rne (x / 2 powr of_int (expo x))) * 2 powr of_int (expo x))"

text \<open>
  \<open>numpy.random.rand\<close> returns binary64 numbers of the half-open interval from 0 to 1.
\<close>

definition unit_double :: "real \<Rightarrow> bool" where
  "unit_double x \<longleftrightarrow> 0 \<le> x \<and> x < 1 \<and> fl x = x"

section \<open>The statements of the notebook\<close>

text \<open>
  The notebook is a sequence of code cells; each cell is a sequence of simple statements:
  imports, assignments to a name, one assignment to an attribute, and expression
  statements. The expressions are literals, names, tuples, one list, unary minus, the
  binary operators \<open>/\<close>, \<open>*\<close>, \<open>-\<close>, and calls of a dotted name \<open>x.a.b(args, k=v)\<close>.
\<close>

datatype binop = Div | Mult | Sub

datatype expr =
    FloatL real
  | IntL int
  | StrL string
  | Name string
  | TupleE "expr list"
  | ListE "expr list"
  | Neg expr
  | BinOp expr binop expr
  | Call string "string list" "expr list" "(string \<times> expr) list"

datatype stmt =
    Import string
  | ImportAs string string
  | Assign string expr
  | AttrAssign string "string list" expr
  | ExprStmt expr

datatype cell = Code "stmt list" | Timed "stmt list"

section \<open>Values, library actions and the state of a run\<close>

text \<open>
  \<open>'h\<close> is the type of the handles of the external library (sources, materials, grids,
  models, post-processing objects, modules), \<open>'e\<close> the type of the exceptions it raises
  and \<open>'w\<close> its hidden state. The library is a parameter of the run: a function from its
  state and an action to an exception, or to a result and a new state. What it returns is
  opaque to the notebook, except a numpy array, with whose entries the notebook computes.
\<close>

datatype 'h val =
    VNone
  | VInt int
  | VNum real
  | VStr string
  | VTuple "'h val list"
  | VList "'h val list"
  | VArr "real list list"
  | VBuiltin string
  | VModule string
  | VRef 'h

datatype 'h ret = Handle 'h | Array "real list list"

fun to_val :: "'h ret \<Rightarrow> 'h val" where
  "to_val (Handle h) = VRef h"
| "to_val (Array xs) = VArr xs"

datatype 'h action =
    LImport string
  | LCall "'h val" "string list" "'h val list" "(string \<times> 'h val) list"
  | LSetAttr "'h val" "string list" "'h val"

datatype pyerr =
    NameError string
  | ZeroDivisionError
  | TypeError
  | AssertionError
  | NotModelled

datatype 'e exn = Own pyerr | Raised 'e

definition own :: "pyerr + 'a \<Rightarrow> 'e exn + 'a" where
  "own r = (case r of Inl x \<Rightarrow> Inl (Own x) | Inr v \<Rightarrow> Inr v)"

datatype site = SImport string | SCall string "string list" | SSetAttr string "string list"

record ('h, 'e) event =
  site :: site
  action :: "'h action"
  outcome :: "'e exn + 'h val"

record ('h, 'w) state =
  env :: "string \<rightharpoonup> 'h val"
  sys_path :: "'h val list"
  filters :: "(string \<times> string) list"
  world :: 'w

type_synonym ('h, 'e, 'w) library = "'w \<Rightarrow> 'h action \<Rightarrow> 'e + ('h ret \<times> 'w)"

text \<open>
  Evaluating an expression or executing a statement gives a result, the new state and
  the events it performed, in order.
\<close>

type_synonym ('a, 'h, 'e, 'w) step = "'a \<times> ('h, 'w) state \<times> ('h, 'e) event list"

section \<open>The interpreter\<close>

definition warning_classes :: "string list" where
  "warning_classes = [''Warning'', ''UserWarning'', ''DeprecationWarning'',
     ''PendingDeprecationWarning'', ''SyntaxWarning'', ''RuntimeWarning'', ''FutureWarning'',
     ''ImportWarning'', ''UnicodeWarning'', ''BytesWarning'', ''ResourceWarning'']"

definition filter_actions :: "string list" where
  "filter_actions = [''error'', ''ignore'', ''always'', ''default'', ''module'', ''once'']"

definition stdlib_modules :: "string list" where
  "stdlib_modules = [''sys'', ''warnings'']"

text \<open>
  A name is looked up in the variables of the notebook, then among the builtins; an
  unbound name raises \<open>NameError\<close> where it is used.
\<close>

definition lookup :: "('h, 'w) state \<Rightarrow> string \<Rightarrow> 'h val option" where
  "lookup st x =
     (case env st x of
        Some v \<Rightarrow> Some v
      | None \<Rightarrow> if x \<in> set warning_classes then Some (VBuiltin x) else None)"

text \<open>
  The two standard-library modules the notebook uses are part of the interpreter:
  \<open>sys.path.append(x)\<close> appends to the module search path, and
  \<open>warnings.simplefilter(action, category)\<close> puts an entry at the front of the list of
  warning filters, after removing an equal entry.
\<close>

definition sys_path_append ::
  "'h val list \<Rightarrow> (string \<times> 'h val) list \<Rightarrow> ('h, 'w) state
     \<Rightarrow> (pyerr + 'h val) \<times> ('h, 'w) state" where
  "sys_path_append args kws st =
     (case args of
        [x] \<Rightarrow> if kws = [] then (Inr VNone, st\<lparr>sys_path := sys_path st @ [x]\<rparr>)
               else (Inl TypeError, st)
      | _ \<Rightarrow> (Inl TypeError, st))"

definition filter_args :: "'h val list \<Rightarrow> (string \<times> string) option" where
  "filter_args args = (case args of [VStr a, VBuiltin c] \<Rightarrow> Some (a, c) | _ \<Rightarrow> None)"

definition simplefilter ::
  "'h val list \<Rightarrow> (string \<times> 'h val) list \<Rightarrow> ('h, 'w) state
     \<Rightarrow> (pyerr + 'h val) \<times> ('h, 'w) state" where
  "simplefilter args kws st =
     (case filter_args args of
        Some (a, c) \<Rightarrow>
          if kws \<noteq> [] then (Inl NotModelled, st)
          else if a \<in> set filter_actions \<and> c \<in> set warning_classes
          then (Inr VNone, st\<lparr>filters := (a, c) # remove1 (a, c) (filters st)\<rparr>)
          else (Inl AssertionError, st)
      | None \<Rightarrow> (Inl NotModelled, st))"

definition stdlib ::
  "string \<Rightarrow> 'h action \<Rightarrow> ('h, 'w) state \<Rightarrow> (pyerr + 'h val) \<times> ('h, 'w) state" where
  "stdlib m a st =
     (case a of
        LImport m' \<Rightarrow> (Inr (VModule m'), st)
      | LCall f p args kws \<Rightarrow>
          if m = ''sys'' \<and> p = [''path'', ''append''] then sys_path_append args kws st
          else if m = ''warnings'' \<and> p = [''simplefilter''] then simplefilter args kws st
          else (Inl NotModelled, st)
      | LSetAttr f p v \<Rightarrow> (Inl NotModelled, st))"

text \<open>
  Every import, call and attribute assignment is an event, recorded with its outcome. An
  action on a standard-library module is run by the interpreter; any other is handed to
  the library, whose exception ends the evaluation.
\<close>

definition invoke ::
  "('h, 'e, 'w) library \<Rightarrow> site \<Rightarrow> string option \<Rightarrow> 'h action \<Rightarrow> ('h, 'w) state
     \<Rightarrow> ('e exn + 'h val, 'h, 'e, 'w) step" where
  "invoke lib s std a st =
     (case std of
        Some m \<Rightarrow>
          (case stdlib m a st of
             (r, st') \<Rightarrow> (own r, st', [\<lparr>site = s, action = a, outcome = own r\<rparr>]))
      | None \<Rightarrow>
          (case lib (world st) a of
             Inl e \<Rightarrow> (Inl (Raised e), st, [\<lparr>site = s, action = a, outcome = Inl (Raised e)\<rparr>])
           | Inr (v, w) \<Rightarrow>
               (Inr (to_val v), st\<lparr>world := w\<rparr>,
                [\<lparr>site = s, action = a, outcome = Inr (to_val v)\<rparr>])))"

definition module_of :: "'h val \<Rightarrow> string option" where
  "module_of v = (case v of VModule m \<Rightarrow> Some m | _ \<Rightarrow> None)"

text \<open>
  Arithmetic: Python's true division raises on a zero divisor; an int meeting a float is
  converted first; an array meeting a scalar is combined entry by entry, as numpy
  broadcasts. Other operand types are outside the modelled fragment.
\<close>

fun arith :: "binop \<Rightarrow> real \<Rightarrow> real \<Rightarrow> real" where
  "arith Div a b = fl (a / b)"
| "arith Mult a b = fl (a * b)"
| "arith Sub a b = fl (a - b)"

definition int_arith :: "binop \<Rightarrow> int \<Rightarrow> int \<Rightarrow> pyerr + 'h val" where
  "int_arith bop a b =
     (case bop of
        Div \<Rightarrow> if b = 0 then Inl ZeroDivisionError else Inr (VNum (fl (of_int a / of_int b)))
      | Mult \<Rightarrow> Inr (VInt (a * b))
      | Sub \<Rightarrow> Inr (VInt (a - b)))"

definition float_arith :: "binop \<Rightarrow> real \<Rightarrow> real \<Rightarrow> bool \<Rightarrow> pyerr + 'h val" where
  "float_arith bop a b zero =
     (if bop = Div \<and> zero then Inl ZeroDivisionError else Inr (VNum (arith bop a b)))"

definition array_arith :: "binop \<Rightarrow> real list list \<Rightarrow> real \<Rightarrow> bool \<Rightarrow> pyerr + 'h val" where
  "array_arith bop xs b zero =
     (if bop = Div \<and> zero then Inl NotModelled
      else Inr (VArr (map (map (\<lambda>x. arith bop x b)) xs)))"

definition binop_val :: "binop \<Rightarrow> 'h val \<Rightarrow> 'h val \<Rightarrow> pyerr + 'h val" where
  "binop_val bop v1 v2 =
     (case v1 of
        VInt a \<Rightarrow>
          (case v2 of
             VInt b \<Rightarrow> int_arith bop a b
           | VNum b \<Rightarrow> float_arith bop (fl (of_int a)) b (b = 0)
           | _ \<Rightarrow> Inl NotModelled)
      | VNum a \<Rightarrow>
          (case v2 of
             VInt b \<Rightarrow> float_arith bop a (fl (of_int b)) (b = 0)
           | VNum b \<Rightarrow> float_arith bop a b (b = 0)
           | _ \<Rightarrow> Inl NotModelled)
      | VArr xs \<Rightarrow>
          (case v2 of
             VInt b \<Rightarrow> array_arith bop xs (fl (of_int b)) (b = 0)
           | VNum b \<Rightarrow> array_arith bop xs b (b = 0)
           | _ \<Rightarrow> Inl NotModelled)
      | _ \<Rightarrow> Inl NotModelled)"

definition neg_val :: "'h val \<Rightarrow> pyerr + 'h val" where
  "neg_val v =
     (case v of
        VInt a \<Rightarrow> Inr (VInt (- a))
      | VNum a \<Rightarrow> Inr (VNum (- a))
      | VArr xs \<Rightarrow> Inr (VArr (map (map uminus) xs))
      | _ \<Rightarrow> Inl NotModelled)"

text \<open>
  Expressions are evaluated left to right. A call looks up the name at the root of the
  callee, evaluates the positional and then the keyword arguments, and invokes the
  dotted path on the root value.
\<close>

fun eval ::
  "('h, 'e, 'w) library \<Rightarrow> expr \<Rightarrow> ('h, 'w) state \<Rightarrow> ('e exn + 'h val, 'h, 'e, 'w) step"
and evals ::
  "('h, 'e, 'w) library \<Rightarrow> expr list \<Rightarrow> ('h, 'w) state
     \<Rightarrow> ('e exn + 'h val list, 'h, 'e, 'w) step"
and evalkw ::
  "('h, 'e, 'w) library \<Rightarrow> (string \<times> expr) list \<Rightarrow> ('h, 'w) state
     \<Rightarrow> ('e exn + (string \<times> 'h val) list, 'h, 'e, 'w) step"
where
  "eval lib (FloatL r) st = (Inr (VNum (fl r)), st, [])"
| "eval lib (IntL i) st = (Inr (VInt i), st, [])"
| "eval lib (StrL s) st = (Inr (VStr s), st, [])"
| "eval lib (Name x) st =
     (case lookup st x of
        None \<Rightarrow> (Inl (Own (NameError x)), st, [])
      | Some v \<Rightarrow> (Inr v, st, []))"
| "eval lib (TupleE es) st =
     (case evals lib es st of
        (Inl x, st1, t1) \<Rightarrow> (Inl x, st1, t1)
      | (Inr vs, st1, t1) \<Rightarrow> (Inr (VTuple vs), st1, t1))"
| "eval lib (ListE es) st =
     (case evals lib es st of
        (Inl x, st1, t1) \<Rightarrow> (Inl x, st1, t1)
      | (Inr vs, st1, t1) \<Rightarrow> (Inr (VList vs), st1, t1))"
| "eval lib (Neg e) st =
     (case eval lib e st of
        (Inl x, st1, t1) \<Rightarrow> (Inl x, st1, t1)
      | (Inr v, st1, t1) \<Rightarrow> (own (neg_val v), st1, t1))"
| "eval lib (BinOp e1 bop e2) st =
     (case eval lib e1 st of
        (Inl x, st1, t1) \<Rightarrow> (Inl x, st1, t1)
      | (Inr v1, st1, t1) \<Rightarrow>
          (case eval lib e2 st1 of
             (Inl x, st2, t2) \<Rightarrow> (Inl x, st2, t1 @ t2)
           | (Inr v2, st2, t2) \<Rightarrow> (own (binop_val bop v1 v2), st2, t1 @ t2)))"
| "eval lib (Call x p as kws) st =
     (case lookup st x of
        None \<Rightarrow> (Inl (Own (NameError x)), st, [])
      | Some f \<Rightarrow>
          (case evals lib as st of
             (Inl err, st1, t1) \<Rightarrow> (Inl err, st1, t1)
           | (Inr vs, st1, t1) \<Rightarrow>
               (case evalkw lib kws st1 of
                  (Inl err, st2, t2) \<Rightarrow> (Inl err, st2, t1 @ t2)
                | (Inr kvs, st2, t2) \<Rightarrow>
                    (case invoke lib (SCall x p) (module_of f) (LCall f p vs kvs) st2 of
                       (r, st3, t3) \<Rightarrow> (r, st3, t1 @ t2 @ t3)))))"
| "evals lib [] st = (Inr [], st, [])"
| "evals lib (e # es) st =
     (case eval lib e st of
        (Inl x, st1, t1) \<Rightarrow> (Inl x, st1, t1)
      | (Inr v, st1, t1) \<Rightarrow>
          (case evals lib es st1 of
             (Inl x, st2, t2) \<Rightarrow> (Inl x, st2, t1 @ t2)
           | (Inr vs, st2, t2) \<Rightarrow> (Inr (v # vs), st2, t1 @ t2)))"
| "evalkw lib [] st = (Inr [], st, [])"
| "evalkw lib ((k, e) # kws) st =
     (case eval lib e st of
        (Inl x, st1, t1) \<Rightarrow> (Inl x, st1, t1)
      | (Inr v, st1, t1) \<Rightarrow>
          (case evalkw lib kws st1 of
             (Inl x, st2, t2) \<Rightarrow> (Inl x, st2, t1 @ t2)
           | (Inr kvs, st2, t2) \<Rightarrow> (Inr ((k, v) # kvs), st2, t1 @ t2)))"

definition bind_name ::
  "string \<Rightarrow> 'h val \<Rightarrow> ('h, 'w) state \<Rightarrow> ('h, 'w) state" where
  "bind_name x v st = st\<lparr>env := (env st)(x \<mapsto> v)\<rparr>"

text \<open>
  A statement returns \<open>None\<close> when it completes and the exception when it raises. An
  attribute assignment evaluates its right-hand side before its target.
\<close>

fun exec_stmt ::
  "('h, 'e, 'w) library \<Rightarrow> stmt \<Rightarrow> ('h, 'w) state \<Rightarrow> ('e exn option, 'h, 'e, 'w) step"
where
  "exec_stmt lib (Import m) st =
     (case invoke lib (SImport m)
             (if m \<in> set stdlib_modules then Some m else None) (LImport m) st of
        (Inl err, st1, t1) \<Rightarrow> (Some err, st1, t1)
      | (Inr v, st1, t1) \<Rightarrow> (None, bind_name m v st1, t1))"
| "exec_stmt lib (ImportAs m x) st =
     (case invoke lib (SImport m)
             (if m \<in> set stdlib_modules then Some m else None) (LImport m) st of
        (Inl err, st1, t1) \<Rightarrow> (Some err, st1, t1)
      | (Inr v, st1, t1) \<Rightarrow> (None, bind_name x v st1, t1))"
| "exec_stmt lib (Assign x e) st =
     (case eval lib e st of
        (Inl err, st1, t1) \<Rightarrow> (Some err, st1, t1)
      | (Inr v, st1, t1) \<Rightarrow> (None, bind_name x v st1, t1))"
| "exec_stmt lib (AttrAssign x p e) st =
     (case eval lib e st of
        (Inl err, st1, t1) \<Rightarrow> (Some err, st1, t1)
      | (Inr v, st1, t1) \<Rightarrow>
          (case lookup st1 x of
             None \<Rightarrow> (Some (Own (NameError x)), st1, t1)
           | Some f \<Rightarrow>
               (case invoke lib (SSetAttr x p) (module_of f) (LSetAttr f p v) st1 of
                  (Inl err, st2, t2) \<Rightarrow> (Some err, st2, t1 @ t2)
                | (Inr _, st2, t2) \<Rightarrow> (None, st2, t1 @ t2))))"
| "exec_stmt lib (ExprStmt e) st =
     (case eval lib e st of
        (Inl err, st1, t1) \<Rightarrow> (Some err, st1, t1)
      | (Inr _, st1, t1) \<Rightarrow> (None, st1, t1))"

text \<open>
  An exception ends the execution of a sequence of statements: the statements after the
  raising one are not executed.
\<close>

fun exec ::
  "('h, 'e, 'w) library \<Rightarrow> stmt list \<Rightarrow> ('h, 'w) state \<Rightarrow> ('e exn option, 'h, 'e, 'w) step"
where
  "exec lib [] st = (None, st, [])"
| "exec lib (s # ss) st =
     (case exec_stmt lib s st of
        (Some err, st1, t1) \<Rightarrow> (Some err, st1, t1)
      | (None, st1, t1) \<Rightarrow>
          (case exec lib ss st1 of (r, st2, t2) \<Rightarrow> (r, st2, t1 @ t2)))"

text \<open>
  The cells run in order, and an exception that leaves a cell ends the run. The \<open>%%time\<close>
  magic of IPython runs the body of its cell inside a handler that catches every
  exception: when the body raises, the magic prints the traceback and returns, so the
  cell ends normally, with the state and the events reached at the exception, and
  the run goes on with the next cell. Otherwise the magic prints how long the body took.
\<close>

fun body :: "cell \<Rightarrow> stmt list" where
  "body (Code ss) = ss"
| "body (Timed ss) = ss"

fun exec_cell ::
  "('h, 'e, 'w) library \<Rightarrow> cell \<Rightarrow> ('h, 'w) state \<Rightarrow> ('e exn option, 'h, 'e, 'w) step"
where
  "exec_cell lib (Code ss) st = exec lib ss st"
| "exec_cell lib (Timed ss) st = (case exec lib ss st of (r, st1, t1) \<Rightarrow> (None, st1, t1))"

fun run_cells ::
  "('h, 'e, 'w) library \<Rightarrow> cell list \<Rightarrow> ('h, 'w) state \<Rightarrow> ('e exn option, 'h, 'e, 'w) step"
where
  "run_cells lib [] st = (None, st, [])"
| "run_cells lib (c # cs) st =
     (case exec_cell lib c st of
        (Some err, st1, t1) \<Rightarrow> (Some err, st1, t1)
      | (None, st1, t1) \<Rightarrow>
          (case run_cells lib cs st1 of (r, st2, t2) \<Rightarrow> (r, st2, t1 @ t2)))"

definition initial :: "'h val list \<Rightarrow> (string \<times> string) list \<Rightarrow> 'w \<Rightarrow> ('h, 'w) state" where
  "initial sp fs w = \<lparr>env = Map.empty, sys_path = sp, filters = fs, world = w\<rparr>"

section \<open>The notebook\<close>

definition notebook :: "cell list" where
  "notebook =
   [Code [Import ''sys'',
          ExprStmt (Call ''sys'' [''path'', ''append''] [StrL ''..''] [])],
    Code [Import ''optimus''],
    Code [Assign ''frequency'' (FloatL 100000),
          Assign ''radius_of_curvature'' (FloatL (64 / 1000)),
          Assign ''radius'' (BinOp (Name ''radius_of_curvature'') Div (IntL 2)),
          Assign ''location'' (TupleE [IntL 0, IntL 0, Neg (Name ''radius_of_curvature'')]),
          Assign ''velocity'' (FloatL (4 / 100)),
          Assign ''source''
            (Call ''optimus'' [''source'', ''create_bowl''] [Name ''frequency'']
               [(''outer_radius'', Name ''radius''),
                (''radius_of_curvature'', Name ''radius_of_curvature''),
                (''location'', Name ''location''),
                (''source_axis'', TupleE [IntL 0, IntL 0, IntL 1]),
                (''velocity'', Name ''velocity'')])],
    Code [Assign ''material_ext''
            (Call ''optimus'' [''material'', ''load_material''] [StrL ''water''] []),
          Assign ''material_int''
            (Call ''optimus'' [''material'', ''load_material''] [StrL ''bone (cortical)''] [])],
    Code [Assign ''geometry1''
            (Call ''optimus'' [''geometry'', ''load'', ''import_grid'']
               [StrL ''Data/ribcage4-h-4.msh''] [(''label'', StrL ''ribcage4'')]),
          Assign ''geometry2''
            (Call ''optimus'' [''geometry'', ''load'', ''import_grid'']
               [StrL ''Data/ribcage3-h-1.msh''] [(''label'', StrL ''ribcage3'')])],
    Code [Import ''warnings'',
          ExprStmt (Call ''warnings'' [''simplefilter''] [StrL ''ignore'', Name ''UserWarning''] []),
          Assign ''grids''
            (Call ''optimus'' [''postprocess'', ''Visualise3DGrid'']
               [ListE [Name ''geometry1'', Name ''geometry2'']] []),
          ExprStmt (Call ''grids'' [''create_computational_grid''] [] []),
          ExprStmt (Call ''grids'' [''display_field''] [] [])],
    Code [Assign ''geometry''
            (Call ''optimus'' [''utils'', ''mesh'', ''scale_mesh'']
               [Name ''geometry1'', FloatL (1 / 1000)] []),
          Assign ''model''
            (Call ''optimus'' [''model'', ''create_default_model'']
               [Name ''source'', Name ''geometry'', Name ''material_ext'', Name ''material_int''] [])],
    Timed [ExprStmt (Call ''model'' [''solve''] [] [])],
    Code [AttrAssign ''optimus'' [''global_parameters'', ''postprocessing'', ''quadrature_order'']
            (IntL 20),
          Assign ''postprocess_plane''
            (Call ''optimus'' [''postprocess'', ''VisualisePlane''] [Name ''model''] []),
          ExprStmt (Call ''postprocess_plane'' [''create_computational_grid''] []
            [(''resolution'', TupleE [IntL 141, IntL 241]),
             (''bounding_box'', TupleE [Neg (FloatL (90 / 1000)), FloatL (90 / 1000),
                                        Neg (FloatL (90 / 1000)), FloatL (90 / 1000)]),
             (''plane_axes'', TupleE [IntL 1, IntL 2])]),
          ExprStmt (Call ''postprocess_plane'' [''compute_fields''] [] [])],
    Code [Assign ''postprocess_3D''
            (Call ''optimus'' [''postprocess'', ''Visualise3DField''] [Name ''model''] []),
          ExprStmt (Call ''postprocess_3D'' [''create_computational_grid''] [] []),
          ExprStmt (Call ''postprocess_3D'' [''add_VisualisePlane''] [Name ''postprocess_plane''] []),
          ExprStmt (Call ''postprocess_3D'' [''compute_fields''] [] []),
          ExprStmt (Call ''postprocess_3D'' [''display_field''] [] [])],
    Code [ImportAs ''numpy'' ''np''],
    Code [Assign ''n'' (IntL 500),
          Assign ''pointsarray''
            (BinOp (BinOp (Call ''np'' [''random'', ''rand''] [IntL 3, Name ''n''] [])
                      Mult (FloatL (18 / 100)))
               Sub (FloatL (9 / 100)))],
    Code [Assign ''points''
            (Call ''optimus'' [''postprocess'', ''VisualiseCloudPoints''] [Name ''model''] []),
          ExprStmt (Call ''points'' [''create_computational_grid''] [Name ''pointsarray''] []),
          ExprStmt (Call ''points'' [''compute_fields''] [] []),
          ExprStmt (Call ''points'' [''display_field''] [] [(''size'', FloatL (9 / 1000))])]]"

definition run ::
  "('h, 'e, 'w) library \<Rightarrow> ('h, 'w) state \<Rightarrow> ('e exn option, 'h, 'e, 'w) step" where
  "run lib st = run_cells lib notebook st"

section \<open>Observing a run\<close>

text \<open>
  The events of a run are compared with the places of the notebook that perform one, in
  the order in which the text evaluates them: arguments before their call, statements and
  cells from top to bottom.
\<close>

fun sites_expr :: "expr \<Rightarrow> site list"
and sites_exprs :: "expr list \<Rightarrow> site list"
and sites_kw :: "(string \<times> expr) list \<Rightarrow> site list" where
  "sites_expr (FloatL r) = []"
| "sites_expr (IntL i) = []"
| "sites_expr (StrL s) = []"
| "sites_expr (Name x) = []"
| "sites_expr (TupleE es) = sites_exprs es"
| "sites_expr (ListE es) = sites_exprs es"
| "sites_expr (Neg e) = sites_expr e"
| "sites_expr (BinOp e1 bop e2) = sites_expr e1 @ sites_expr e2"
| "sites_expr (Call x p as kws) = sites_exprs as @ sites_kw kws @ [SCall x p]"
| "sites_exprs [] = []"
| "sites_exprs (e # es) = sites_expr e @ sites_exprs es"
| "sites_kw [] = []"
| "sites_kw ((k, e) # kws) = sites_expr e @ sites_kw kws"

fun sites_stmt :: "stmt \<Rightarrow> site list" where
  "sites_stmt (Import m) = [SImport m]"
| "sites_stmt (ImportAs m x) = [SImport m]"
| "sites_stmt (Assign x e) = sites_expr e"
| "sites_stmt (AttrAssign x p e) = sites_expr e @ [SSetAttr x p]"
| "sites_stmt (ExprStmt e) = sites_expr e"

definition statements :: "cell list \<Rightarrow> stmt list" where
  "statements cs = concat (map body cs)"

definition sites :: "cell list \<Rightarrow> site list" where
  "sites cs = concat (map sites_stmt (statements cs))"

definition err :: "'a + 'b \<Rightarrow> 'a option" where
  "err r = (case r of Inl x \<Rightarrow> Some x | Inr v \<Rightarrow> None)"

text \<open>
  \<open>raising_last t r\<close>: an event of \<open>t\<close> whose outcome is an exception is the last event of
  \<open>t\<close>, and its exception is the result \<open>r\<close> of the run.
\<close>

definition raising_last :: "('h, 'e) event list \<Rightarrow> 'e exn option \<Rightarrow> bool" where
  "raising_last t r \<longleftrightarrow>
     (\<forall>i < length t. \<forall>x. outcome (t ! i) = Inl x \<longrightarrow> Suc i = length t \<and> r = Some x)"

definition logs :: "('h, 'e) event list \<Rightarrow> 'e exn option \<Rightarrow> site list \<Rightarrow> bool" where
  "logs t r ss \<longleftrightarrow>
     raising_last t r \<and>
     (case r of None \<Rightarrow> map site t = ss | Some x \<Rightarrow> prefix (map site t) ss)"

text \<open>
  \<open>raising_last_but q t r\<close>: the same, except for the events that come from the place \<open>q\<close>
  of the text.
\<close>

definition raising_last_but :: "site \<Rightarrow> ('h, 'e) event list \<Rightarrow> 'e exn option \<Rightarrow> bool" where
  "raising_last_but q t r \<longleftrightarrow>
     (\<forall>i < length t. \<forall>x. outcome (t ! i) = Inl x \<longrightarrow>
        site (t ! i) = q \<or> (Suc i = length t \<and> r = Some x))"

fun is_code :: "cell \<Rightarrow> bool" where
  "is_code (Code ss) = True"
| "is_code (Timed ss) = False"

definition before :: "site \<Rightarrow> site list \<Rightarrow> site list" where
  "before q ss = takeWhile (\<lambda>s. s \<noteq> q) ss"

definition calls_on :: "string \<Rightarrow> site list \<Rightarrow> string list list" where
  "calls_on x ss =
     concat (map (\<lambda>s. case s of SCall y p \<Rightarrow> if y = x then [p] else [] | _ \<Rightarrow> []) ss)"



definition is_write :: "'h action \<Rightarrow> bool" where
  "is_write a = (case a of LSetAttr f p v \<Rightarrow> True | _ \<Rightarrow> False)"

section \<open>Post-processing objects\<close>

text \<open>
  A post-processing object is what a constructor of \<open>optimus.postprocess\<close> returns; the
  notebook keeps each in a variable. Those built from the model take \<open>model\<close> as their
  only argument.
\<close>

definition quadrature_site :: site where
  "quadrature_site =
     SSetAttr ''optimus'' [''global_parameters'', ''postprocessing'', ''quadrature_order'']"

definition solve_call :: site where
  "solve_call = SCall ''model'' [''solve'']"

definition cloud_site :: site where
  "cloud_site = SCall ''points'' [''create_computational_grid'']"

fun viewer_var :: "stmt \<Rightarrow> string list" where
  "viewer_var (Assign x (Call f p as kws)) =
     (if f = ''optimus'' \<and> take 1 p = [''postprocess''] then [x] else [])"
| "viewer_var s = []"

fun model_viewer_var :: "stmt \<Rightarrow> string list" where
  "model_viewer_var (Assign x (Call f p as kws)) =
     (if f = ''optimus'' \<and> take 1 p = [''postprocess''] \<and> as = [Name ''model'']
      then [x] else [])"
| "model_viewer_var s = []"

definition viewers :: "cell list \<Rightarrow> string list" where
  "viewers cs = concat (map viewer_var (statements cs))"

definition model_viewers :: "cell list \<Rightarrow> string list" where
  "model_viewers cs = concat (map model_viewer_var (statements cs))"

definition is_constructor :: "site \<Rightarrow> bool" where
  "is_constructor s =
     (case s of SCall x p \<Rightarrow> x = ''optimus'' \<and> take 1 p = [''postprocess''] | _ \<Rightarrow> False)"

definition postprocess_op :: "string list \<Rightarrow> site \<Rightarrow> bool" where
  "postprocess_op vs s =
     (case s of SCall x p \<Rightarrow> is_constructor s \<or> x \<in> set vs | _ \<Rightarrow> False)"

section \<open>Where the arguments of the calls come from\<close>

text \<open>
  Each argument of a call is a literal of the text (possibly through a variable bound to
  one), a value returned by a library, or a value the notebook computes itself with an
  operator. A tuple or list has the origin of its components; the sign of a number belongs
  to the literal.
\<close>

datatype origin = Literal | Library | Computed

fun join :: "origin \<Rightarrow> origin \<Rightarrow> origin" where
  "join Computed b = Computed"
| "join a Computed = Computed"
| "join Library b = Library"
| "join a Library = Library"
| "join Literal Literal = Literal"

fun is_number :: "expr \<Rightarrow> bool" where
  "is_number (FloatL r) = True"
| "is_number (IntL i) = True"
| "is_number e = False"

fun origin_of :: "(string \<rightharpoonup> origin) \<Rightarrow> expr \<Rightarrow> origin"
and origins_of :: "(string \<rightharpoonup> origin) \<Rightarrow> expr list \<Rightarrow> origin" where
  "origin_of d (FloatL r) = Literal"
| "origin_of d (IntL i) = Literal"
| "origin_of d (StrL s) = Literal"
| "origin_of d (Name x) = (case d x of Some og \<Rightarrow> og | None \<Rightarrow> Literal)"
| "origin_of d (TupleE es) = origins_of d es"
| "origin_of d (ListE es) = origins_of d es"
| "origin_of d (Neg e) = (if is_number e then Literal else Computed)"
| "origin_of d (BinOp e1 bop e2) = Computed"
| "origin_of d (Call x p as kws) = Library"
| "origins_of d [] = Literal"
| "origins_of d (e # es) = join (origin_of d e) (origins_of d es)"

fun call_args :: "expr \<Rightarrow> (site \<times> expr) list"
and call_args_list :: "expr list \<Rightarrow> (site \<times> expr) list"
and call_args_kw :: "(string \<times> expr) list \<Rightarrow> (site \<times> expr) list" where
  "call_args (FloatL r) = []"
| "call_args (IntL i) = []"
| "call_args (StrL s) = []"
| "call_args (Name x) = []"
| "call_args (TupleE es) = call_args_list es"
| "call_args (ListE es) = call_args_list es"
| "call_args (Neg e) = call_args e"
| "call_args (BinOp e1 bop e2) = call_args e1 @ call_args e2"
| "call_args (Call x p as kws) =
     call_args_list as @ call_args_kw kws @ map (Pair (SCall x p)) (as @ map snd kws)"
| "call_args_list [] = []"
| "call_args_list (e # es) = call_args e @ call_args_list es"
| "call_args_kw [] = []"
| "call_args_kw ((k, e) # kws) = call_args e @ call_args_kw kws"

fun arg_origins :: "(string \<rightharpoonup> origin) \<Rightarrow> stmt list \<Rightarrow> (site \<times> expr \<times> origin) list" where
  "arg_origins d [] = []"
| "arg_origins d (Import m # ss) = arg_origins (d(m \<mapsto> Library)) ss"
| "arg_origins d (ImportAs m x # ss) = arg_origins (d(x \<mapsto> Library)) ss"
| "arg_origins d (Assign x e # ss) =
     map (\<lambda>(c, a). (c, a, origin_of d a)) (call_args e) @
     arg_origins (d(x \<mapsto> origin_of d e)) ss"
| "arg_origins d (AttrAssign x p e # ss) =
     map (\<lambda>(c, a). (c, a, origin_of d a)) (call_args e) @
     (SSetAttr x p, e, origin_of d e) # arg_origins d ss"
| "arg_origins d (ExprStmt e # ss) =
     map (\<lambda>(c, a). (c, a, origin_of d a)) (call_args e) @ arg_origins d ss"

fun computed_vars :: "(string \<rightharpoonup> origin) \<Rightarrow> stmt list \<Rightarrow> (string \<times> expr) list" where
  "computed_vars d [] = []"
| "computed_vars d (Import m # ss) = computed_vars (d(m \<mapsto> Library)) ss"
| "computed_vars d (ImportAs m x # ss) = computed_vars (d(x \<mapsto> Library)) ss"
| "computed_vars d (Assign x e # ss) =
     (if origin_of d e = Computed then [(x, e)] else []) @
     computed_vars (d(x \<mapsto> origin_of d e)) ss"
| "computed_vars d (s # ss) = computed_vars d ss"

definition computed_args :: "cell list \<Rightarrow> (site \<times> expr) list" where
  "computed_args cs =
     map (\<lambda>(c, a, og). (c, a))
       (filter (\<lambda>(c, a, og). og = Computed) (arg_origins Map.empty (statements cs)))"

section \<open>The result of \<open>solve\<close>\<close>

text \<open>
  \<open>with_solve_result g lib\<close> is the library \<open>lib\<close> whose \<open>solve\<close> methods return \<open>g r\<close> where
  \<open>lib\<close> returns \<open>r\<close>; its effect on the library's own state is the same. Two runs are the
  same up to that value when they end in the same result and state, and their events
  differ at most in the value a \<open>solve\<close> returns.
\<close>

definition is_solve :: "'h action \<Rightarrow> bool" where
  "is_solve a = (case a of LCall f p vs kvs \<Rightarrow> p = [''solve''] | _ \<Rightarrow> False)"

definition solve_site :: "site \<Rightarrow> bool" where
  "solve_site s = (case s of SCall x p \<Rightarrow> p = [''solve''] | _ \<Rightarrow> False)"

definition with_solve_result ::
  "('h ret \<Rightarrow> 'h ret) \<Rightarrow> ('h, 'e, 'w) library \<Rightarrow> ('h, 'e, 'w) library" where
  "with_solve_result g lib w a =
     (if is_solve a
      then (case lib w a of Inl e \<Rightarrow> Inl e | Inr (r, w') \<Rightarrow> Inr (g r, w'))
      else lib w a)"

definition same_but_solve :: "('h, 'e) event \<Rightarrow> ('h, 'e) event \<Rightarrow> bool" where
  "same_but_solve ev ev' \<longleftrightarrow>
     site ev' = site ev \<and> action ev' = action ev \<and>
     (if is_solve (action ev) then isl (outcome ev') = isl (outcome ev)
      else outcome ev' = outcome ev)"

fun same_run ::
  "('e exn option, 'h, 'e, 'w) step \<Rightarrow> ('e exn option, 'h, 'e, 'w) step \<Rightarrow> bool" where
  "same_run (r, st, t) (r', st', t') \<longleftrightarrow> r' = r \<and> st' = st \<and> list_all2 same_but_solve t t'"

definition no_solve :: "site list \<Rightarrow> bool" where
  "no_solve ss = (filter solve_site ss = [])"

fun discards_solve :: "stmt \<Rightarrow> bool" where
  "discards_solve (ExprStmt (Call x p as kws)) = no_solve (sites_exprs as @ sites_kw kws)"
| "discards_solve s = no_solve (sites_stmt s)"

section \<open>Variables read by the notebook\<close>



definition same_except :: "string list \<Rightarrow> ('h, 'w) state \<Rightarrow> ('h, 'w) state \<Rightarrow> bool" where
  "same_except X st st' \<longleftrightarrow>
     sys_path st' = sys_path st \<and> filters st' = filters st \<and> world st' = world st \<and>
     (\<forall>x. x \<notin> set X \<longrightarrow> env st' x = env st x)"

definition unread :: "string list \<Rightarrow> string list \<Rightarrow> bool" where
  "unread X ns = (filter (\<lambda>n. n \<in> set X) ns = [])"

section \<open>Libraries\<close>

text \<open>
  What a statement about every run may assume of the library: that it never raises, and
  that what its \<open>rand\<close> returns is an array. \<open>tidy lib\<close> is \<open>lib\<close> with the result of \<open>rand\<close>
  coerced to an array; it is \<open>lib\<close> itself when \<open>rand\<close> returns arrays.
\<close>

definition rand_action :: "'h action \<Rightarrow> bool" where
  "rand_action a = (case a of LCall f p args kws \<Rightarrow> p = [''random'', ''rand''] | _ \<Rightarrow> False)"

fun is_array :: "'h ret \<Rightarrow> bool" where
  "is_array (Array a) = True"
| "is_array (Handle h) = False"

fun array_of :: "'h ret \<Rightarrow> real list list" where
  "array_of (Array a) = a"
| "array_of (Handle h) = []"


definition rand_returns_array :: "('h, 'e, 'w) library \<Rightarrow> bool" where
  "rand_returns_array lib =
     (\<forall>w a r w'. rand_action a \<longrightarrow> lib w a = Inr (r, w') \<longrightarrow> is_array r)"

definition tidy :: "('h, 'e, 'w) library \<Rightarrow> ('h, 'e, 'w) library" where
  "tidy lib w a =
     (case lib w a of
        Inl e \<Rightarrow> Inl e
      | Inr vw \<Rightarrow> Inr (if rand_action a then Array (array_of (fst vw)) else fst vw, snd vw))"

definition shape :: "real list list \<Rightarrow> nat \<Rightarrow> nat \<Rightarrow> bool" where
  "shape a r c \<longleftrightarrow> length a = r \<and> list_all (\<lambda>row. length row = c) a"

text \<open>
  \<open>rand_valid lib\<close>: \<open>rand(r, c)\<close> of the library returns, when it returns, an array of \<open>r\<close>
  rows and \<open>c\<close> columns of binary64 numbers of the interval from 0 to 1, 1 excluded.
\<close>

definition rand_valid :: "('h, 'e, 'w) library \<Rightarrow> bool" where
  "rand_valid lib \<longleftrightarrow>
     (\<forall>w f r c kws res w'.
        lib w (LCall f [''random'', ''rand''] [VInt r, VInt c] kws) = Inr (res, w') \<longrightarrow>
        is_array res \<and> shape (array_of res) (nat r) (nat c) \<and>
        list_all unit_double (concat (array_of res)))"

definition in_cloud_range :: "real list list \<Rightarrow> bool" where
  "in_cloud_range xs \<longleftrightarrow> list_all (\<lambda>x. - (9 / 100) \<le> x \<and> x < 9 / 100) (concat xs)"

text \<open>
  A library for concrete runs: it never raises, numbers the objects it creates with a
  counter, and its \<open>rand\<close> returns an array of zeros of the shape asked for.
\<close>

definition zeros :: "'h val list \<Rightarrow> real list list" where
  "zeros args =
     (case args of
        [VInt r, VInt c] \<Rightarrow> replicate (nat r) (replicate (nat c) 0)
      | _ \<Rightarrow> [])"

definition demo_lib :: "(nat, unit, nat) library" where
  "demo_lib w a =
     (case a of
        LCall f p args kws \<Rightarrow>
          if p = [''random'', ''rand''] then Inr (Array (zeros args), w)
          else Inr (Handle w, Suc w)
      | _ \<Rightarrow> Inr (Handle w, Suc w))"

definition demo_run :: "(unit exn option, nat, unit, nat) step" where
  "demo_run = run demo_lib (initial [] [] 0)"

definition demo_state :: "(nat, nat) state" where
  "demo_state = fst (snd demo_run)"

definition demo_events :: "(nat, unit) event list" where
  "demo_events = snd (snd demo_run)"

text \<open>
  The same library with a \<open>solve\<close> that raises, and the run of the notebook on it.
\<close>

definition failing_solve :: "(nat, unit, nat) library" where
  "failing_solve w a =
     (case a of
        LCall f p args kws \<Rightarrow> if p = [''solve''] then Inl () else demo_lib w a
      | _ \<Rightarrow> demo_lib w a)"

definition failed_run :: "(unit exn option, nat, unit, nat) step" where
  "failed_run = run failing_solve (initial [] [] 0)"

text \<open>
  A library to compare runs that differ in the second mesh. Its state is at first the
  content of the file of the second mesh, a number; \<open>import_grid\<close> of that file returns a
  handle for it and leaves the state 0. \<open>compute_fields\<close> returns a handle of the state.
  With \<open>keep\<close>, the mesh viewer stores the second mesh it is given in the state; without,
  it leaves the state 0. Every other call returns the handle 0.
\<close>

definition kept :: "bool \<Rightarrow> nat val list \<Rightarrow> nat" where
  "kept keep args = (case args of [VList [g1, VRef k]] \<Rightarrow> if keep then k else 0 | _ \<Rightarrow> 0)"

definition mesh_lib :: "bool \<Rightarrow> (nat, unit, nat) library" where
  "mesh_lib keep w a =
     (case a of
        LCall f p args kws \<Rightarrow>
          if p = [''random'', ''rand''] then Inr (Array (zeros args), w)
          else if p = [''geometry'', ''load'', ''import_grid''] \<and>
                  args = [VStr ''Data/ribcage3-h-1.msh''] then Inr (Handle w, 0)
          else if p = [''postprocess'', ''Visualise3DGrid''] then Inr (Handle 0, kept keep args)
          else if p = [''compute_fields''] then Inr (Handle w, w)
          else Inr (Handle 0, w)
      | _ \<Rightarrow> Inr (Handle 0, w))"




section \<open>Rounding\<close>

lemma rne_of_int [simp]: "rne (of_int k) = k"
  by (simp add: rne_def)

lemma rne_cases:
  "rne x = \<lfloor>x\<rfloor> \<or> rne x = \<lfloor>x\<rfloor> + 1"
  by (simp add: rne_def Let_def)

lemma rne_ge_floor: "\<lfloor>x\<rfloor> \<le> rne x"
  using rne_cases[of x] by auto

lemma rne_le_ceil: "rne x \<le> \<lfloor>x\<rfloor> + 1"
  using rne_cases[of x] by auto

lemma rne_mono: assumes "x \<le> y" shows "rne x \<le> rne y"
proof (cases "\<lfloor>x\<rfloor> < \<lfloor>y\<rfloor>")
  case True
  have "rne x \<le> \<lfloor>x\<rfloor> + 1" by (rule rne_le_ceil)
  also have "\<dots> \<le> \<lfloor>y\<rfloor>" using True by simp
  also have "\<dots> \<le> rne y" by (rule rne_ge_floor)
  finally show ?thesis .
next
  case False
  with assms have eq: "\<lfloor>x\<rfloor> = \<lfloor>y\<rfloor>" using floor_mono[of x y] by simp
  then have "x - of_int \<lfloor>x\<rfloor> \<le> y - of_int \<lfloor>y\<rfloor>" using assms by simp
  then show ?thesis unfolding rne_def Let_def eq by auto
qed

lemma rne_uminus: "rne (- x) = - rne x"
proof (cases "x = of_int \<lfloor>x\<rfloor>")
  case True
  then obtain k where "x = of_int k" ..
  then show ?thesis by (simp del: of_int_minus add: of_int_minus[symmetric])
next
  case False
  have lt: "of_int \<lfloor>x\<rfloor> < x" by (metis False of_int_floor_le order_le_less)
  have ub: "x < of_int \<lfloor>x\<rfloor> + 1" by linarith
  have cast: "real_of_int (- \<lfloor>x\<rfloor> - 1) = - of_int \<lfloor>x\<rfloor> - 1" by simp
  have fl: "\<lfloor>- x\<rfloor> = - \<lfloor>x\<rfloor> - 1"
  proof (rule floor_unique)
    show "real_of_int (- \<lfloor>x\<rfloor> - 1) \<le> - x" unfolding cast using ub by linarith
    show "- x < real_of_int (- \<lfloor>x\<rfloor> - 1) + 1" unfolding cast using lt by linarith
  qed
  define f where "f = \<lfloor>x\<rfloor>"
  define d where "d = x - of_int f"
  have d: "0 < d" "d < 1" using lt unfolding d_def f_def by linarith+
  have x: "x = of_int f + d" by (simp add: d_def)
  have "rne (- x) = (if 1 - d < 1 / 2 then - f - 1 else if 1 / 2 < 1 - d then - f
        else if even (- f - 1) then - f - 1 else - f)"
    unfolding rne_def Let_def fl f_def[symmetric] by (simp add: x)
  moreover have "rne x = (if d < 1 / 2 then f else if 1 / 2 < d then f + 1
        else if even f then f else f + 1)"
    unfolding rne_def Let_def f_def[symmetric] d_def[symmetric] by simp
  ultimately show ?thesis using d by (auto simp: field_simps)
qed


lemma fl_0 [simp]: "fl 0 = 0"
  by (simp add: fl_def)

lemma expo_uminus [simp]: "expo (- x) = expo x"
  by (simp add: expo_def)

lemma fl_uminus: "fl (- x) = - fl x"
  by (simp add: fl_def rne_uminus)

lemma expo_ge: "- 1074 \<le> expo x"
  by (simp add: expo_def)

lemma expo_mono: assumes "0 < x" "x \<le> y" shows "expo x \<le> expo y"
proof -
  have "log 2 x \<le> log 2 y" using assms by simp
  then have "\<lfloor>log 2 x\<rfloor> \<le> \<lfloor>log 2 y\<rfloor>" by (rule floor_mono)
  then show ?thesis using assms by (simp add: expo_def)
qed

lemma below_binade: assumes "0 < x" shows "x < 2 powr of_int (expo x + 53)"
proof -
  have "\<lfloor>log 2 x\<rfloor> \<le> expo x + 52" using assms by (simp add: expo_def)
  then have "log 2 x < of_int (expo x + 52) + 1" by (simp only: floor_le_iff)
  then have "log 2 x < of_int (expo x + 53)" by simp
  then have "2 powr log 2 x < 2 powr of_int (expo x + 53)" by simp
  then show ?thesis using assms by simp
qed

lemma above_binade:
  assumes "0 < x" "- 1074 < expo x" shows "2 powr of_int (expo x + 52) \<le> x"
proof -
  have "expo x = \<lfloor>log 2 x\<rfloor> - 52" using assms by (simp add: expo_def max_def split: if_splits)
  then have "expo x + 52 \<le> \<lfloor>log 2 x\<rfloor>" by simp
  then have "of_int (expo x + 52) \<le> log 2 x" by (simp only: le_floor_iff)
  then have "2 powr of_int (expo x + 52) \<le> 2 powr log 2 x" by simp
  then show ?thesis using assms by simp
qed

lemma fl_pos_eq: "x \<noteq> 0 \<Longrightarrow> fl x = of_int (rne (x / 2 powr of_int (expo x))) * 2 powr of_int (expo x)"
  by (simp add: fl_def)

lemma fl_upper: assumes "0 < x" shows "fl x \<le> 2 powr of_int (expo x + 53)"
proof -
  let ?s = "(2::real) powr of_int (expo x)"
  have s: "0 < ?s" by simp
  have "x < ?s * 2 powr 53" using below_binade[OF assms] by (simp add: powr_add)
  then have "x / ?s \<le> of_int (2 ^ 53)" using s by (simp add: field_simps)
  then have "rne (x / ?s) \<le> rne (of_int (2 ^ 53))" by (rule rne_mono)
  then have "rne (x / ?s) \<le> 2 ^ 53" by (simp only: rne_of_int)
  then have "real_of_int (rne (x / ?s)) \<le> real_of_int (2 ^ 53)" by (simp only: of_int_le_iff)
  then have "real_of_int (rne (x / ?s)) \<le> 2 ^ 53" by simp
  then have "real_of_int (rne (x / ?s)) * ?s \<le> 2 ^ 53 * ?s" using s by (simp only: mult_le_cancel_right_pos)
  then show ?thesis using assms by (simp add: fl_pos_eq powr_add mult.commute)
qed

lemma fl_lower: assumes "0 < x" "- 1074 < expo x" shows "2 powr of_int (expo x + 52) \<le> fl x"
proof -
  let ?s = "(2::real) powr of_int (expo x)"
  have s: "0 < ?s" by simp
  have "?s * 2 powr 52 \<le> x" using above_binade[OF assms] by (simp add: powr_add)
  then have "of_int (2 ^ 52) \<le> x / ?s" using s by (simp add: field_simps)
  then have "rne (of_int (2 ^ 52)) \<le> rne (x / ?s)" by (rule rne_mono)
  then have "2 ^ 52 \<le> rne (x / ?s)" by (simp only: rne_of_int)
  then have "real_of_int (2 ^ 52) \<le> real_of_int (rne (x / ?s))" by (simp only: of_int_le_iff)
  then have "2 ^ 52 \<le> real_of_int (rne (x / ?s))" by simp
  then have "2 ^ 52 * ?s \<le> real_of_int (rne (x / ?s)) * ?s" using s by (simp only: mult_le_cancel_right_pos)
  then show ?thesis using assms by (simp add: fl_pos_eq powr_add mult.commute)
qed

lemma fl_nonneg: assumes "0 \<le> x" shows "0 \<le> fl x"
proof (cases "x = 0")
  case False
  let ?s = "(2::real) powr of_int (expo x)"
  have "0 \<le> x / ?s" using assms by simp
  then have "rne 0 \<le> rne (x / ?s)" by (rule rne_mono)
  then have "0 \<le> rne (x / ?s)" using rne_of_int[of 0] by simp
  then show ?thesis using False by (simp add: fl_pos_eq)
qed simp

lemma fl_mono_pos: assumes "0 < x" "x \<le> y" shows "fl x \<le> fl y"
proof -
  have y: "0 < y" using assms by simp
  have le: "expo x \<le> expo y" using assms by (rule expo_mono)
  show ?thesis
  proof (cases "expo x = expo y")
    case True
    let ?s = "(2::real) powr of_int (expo x)"
    have "x / ?s \<le> y / ?s" using assms by (simp add: divide_right_mono)
    then have "rne (x / ?s) \<le> rne (y / ?s)" by (rule rne_mono)
    then have "real_of_int (rne (x / ?s)) * ?s \<le> real_of_int (rne (y / ?s)) * ?s"
      by (simp add: mult_right_mono)
    then show ?thesis using assms y True by (simp add: fl_pos_eq)
  next
    case False
    with le have lt: "expo x < expo y" by simp
    with expo_ge[of x] have "- 1074 < expo y" by simp
    have "fl x \<le> 2 powr of_int (expo x + 53)" using assms(1) by (rule fl_upper)
    also have "\<dots> \<le> 2 powr of_int (expo y + 52)" using lt by simp
    also have "\<dots> \<le> fl y" using y \<open>- 1074 < expo y\<close> by (rule fl_lower)
    finally show ?thesis .
  qed
qed

lemma fl_mono: assumes "x \<le> y" shows "fl x \<le> fl y"
proof -
  consider "0 < x" | "x \<le> 0" "0 \<le> y" | "y < 0" by linarith
  then show ?thesis
  proof cases
    case 1 then show ?thesis using assms by (rule fl_mono_pos)
  next
    case 2
    have "fl x = - fl (- x)" by (simp add: fl_uminus)
    moreover have "0 \<le> fl (- x)" using 2 by (intro fl_nonneg) simp
    moreover have "0 \<le> fl y" using 2 by (intro fl_nonneg)
    ultimately show ?thesis by simp
  next
    case 3
    have "fl (- y) \<le> fl (- x)" using 3 assms by (intro fl_mono_pos) simp_all
    then show ?thesis by (simp add: fl_uminus)
  qed
qed


lemma rne_nearest:
  assumes "of_int k - 1 / 2 < x" "x < of_int k + 1 / 2" shows "rne x = k"
proof (cases "of_int k \<le> x")
  case True
  then have "\<lfloor>x\<rfloor> = k" using assms by (intro floor_unique) simp_all
  then show ?thesis using assms by (simp add: rne_def)
next
  case False
  then have "\<lfloor>x\<rfloor> = k - 1" using assms by (intro floor_unique) simp_all
  then show ?thesis using assms False by (simp add: rne_def)
qed

lemma fl_binade:
  assumes "2 powr of_int k \<le> \<bar>x\<bar>" "\<bar>x\<bar> < 2 powr of_int (k + 1)" "- 1022 \<le> k"
  shows "fl x = of_int (rne (x / 2 powr of_int (k - 52))) * 2 powr of_int (k - 52)"
proof -
  have "0 < (2::real) powr of_int k" by simp
  with assms(1) have pos: "0 < \<bar>x\<bar>" by linarith
  have "\<lfloor>log 2 \<bar>x\<bar>\<rfloor> = k" using assms pos by (subst floor_log_eq_powr_iff) simp_all
  then have "expo x = k - 52" using assms(3) by (simp add: expo_def)
  then show ?thesis using pos by (simp add: fl_def)
qed

lemma fl_18: "fl (18 / 100) = 6485183463413514 / 2 ^ 55"
proof -
  have "rne (18 / 100 / 2 powr of_int (- 3 - 52)) = 6485183463413514"
    by (rule rne_nearest) (simp_all add: powr_minus)
  moreover have "fl (18 / 100) = of_int (rne (18 / 100 / 2 powr of_int (- 3 - 52))) * 2 powr of_int (- 3 - 52)"
    by (rule fl_binade) (simp_all add: powr_minus)
  ultimately show ?thesis by (simp add: powr_minus)
qed

lemma fl_09: "fl (9 / 100) = 6485183463413514 / 2 ^ 56"
proof -
  have "rne (9 / 100 / 2 powr of_int (- 4 - 52)) = 6485183463413514"
    by (rule rne_nearest) (simp_all add: powr_minus)
  moreover have "fl (9 / 100) = of_int (rne (9 / 100 / 2 powr of_int (- 4 - 52))) * 2 powr of_int (- 4 - 52)"
    by (rule fl_binade) (simp_all add: powr_minus)
  ultimately show ?thesis by (simp add: powr_minus)
qed

lemma fl_top: "fl ((1 - 1 / 2 ^ 53) * (6485183463413514 / 2 ^ 55)) = 6485183463413513 / 2 ^ 55"
proof -
  let ?x = "(1 - 1 / 2 ^ 53) * (6485183463413514 / 2 ^ 55) :: real"
  have "rne (?x / 2 powr of_int (- 3 - 52)) = 6485183463413513"
    by (rule rne_nearest) (simp_all add: powr_minus)
  moreover have "fl ?x = of_int (rne (?x / 2 powr of_int (- 3 - 52))) * 2 powr of_int (- 3 - 52)"
    by (rule fl_binade) (simp_all add: powr_minus)
  ultimately show ?thesis by (simp add: powr_minus)
qed

lemma fl_low: "fl (- (6485183463413514 / 2 ^ 56)) = - (6485183463413514 / 2 ^ 56)"
proof -
  let ?x = "6485183463413514 / 2 ^ 56 :: real"
  have "rne (?x / 2 powr of_int (- 4 - 52)) = 6485183463413514"
    by (rule rne_nearest) (simp_all add: powr_minus)
  moreover have "fl ?x = of_int (rne (?x / 2 powr of_int (- 4 - 52))) * 2 powr of_int (- 4 - 52)"
    by (rule fl_binade) (simp_all add: powr_minus)
  ultimately have "fl ?x = ?x" by (simp add: powr_minus)
  then show ?thesis by (simp add: fl_uminus)
qed

lemma fl_high: "fl (6485183463413513 / 2 ^ 55 - 6485183463413514 / 2 ^ 56) = 6485183463413512 / 2 ^ 56"
proof -
  let ?x = "6485183463413513 / 2 ^ 55 - 6485183463413514 / 2 ^ 56 :: real"
  have "rne (?x / 2 powr of_int (- 4 - 52)) = 6485183463413512"
    by (rule rne_nearest) (simp_all add: powr_minus)
  moreover have "fl ?x = of_int (rne (?x / 2 powr of_int (- 4 - 52))) * 2 powr of_int (- 4 - 52)"
    by (rule fl_binade) (simp_all add: powr_minus)
  ultimately show ?thesis by (simp add: powr_minus)
qed

lemma unit_double_le: assumes "unit_double x" shows "x \<le> 1 - 1 / 2 ^ 53"
proof (rule ccontr)
  assume "\<not> x \<le> 1 - 1 / 2 ^ 53"
  then have gt: "1 - 1 / 2 ^ 53 < x" by simp
  have lt: "x < 1" and fx: "fl x = x" using assms by (simp_all add: unit_double_def)
  have "fl x = of_int (rne (x / 2 powr of_int (- 1 - 52))) * 2 powr of_int (- 1 - 52)"
    using gt lt by (intro fl_binade) (simp_all add: powr_minus)
  then have "x = of_int (rne (x * 2 ^ 53)) / 2 ^ 53" using fx by (simp add: powr_minus)
  then obtain n :: int where n: "x = of_int n / 2 ^ 53" ..
  have "of_int (2 ^ 53 - 1) < (of_int n :: real)" using gt unfolding n by (simp add: field_simps)
  moreover have "(of_int n :: real) < of_int (2 ^ 53)" using lt unfolding n by (simp add: field_simps)
  ultimately have "2 ^ 53 - 1 < n" "n < 2 ^ 53" by (simp_all only: of_int_less_iff)
  then show False by simp
qed

lemma affine_bounds:
  assumes "unit_double x"
  shows "- (9 / 100) \<le> fl (fl (x * fl (18 / 100)) - fl (9 / 100))"
    and "fl (fl (x * fl (18 / 100)) - fl (9 / 100)) < 9 / 100"
proof -
  let ?c = "6485183463413514 / 2 ^ 55 :: real"
  let ?h = "6485183463413514 / 2 ^ 56 :: real"
  let ?p = "fl (x * ?c)"
  have x0: "0 \<le> x" using assms by (simp add: unit_double_def)
  have x1: "x \<le> 1 - 1 / 2 ^ 53" using assms by (rule unit_double_le)
  have "0 \<le> x * ?c" using x0 by simp
  then have p0: "0 \<le> ?p" by (rule fl_nonneg)
  have "x * ?c \<le> (1 - 1 / 2 ^ 53) * ?c" using x1 by (intro mult_right_mono) simp_all
  then have "?p \<le> fl ((1 - 1 / 2 ^ 53) * ?c)" by (rule fl_mono)
  then have p1: "?p \<le> 6485183463413513 / 2 ^ 55" by (simp only: fl_top)
  have "- ?h \<le> ?p - ?h" using p0 by simp
  then have "fl (- ?h) \<le> fl (?p - ?h)" by (rule fl_mono)
  then have lo: "- ?h \<le> fl (?p - ?h)" by (simp only: fl_low)
  have "?p - ?h \<le> 6485183463413513 / 2 ^ 55 - ?h" using p1 by simp
  then have "fl (?p - ?h) \<le> fl (6485183463413513 / 2 ^ 55 - ?h)" by (rule fl_mono)
  then have hi: "fl (?p - ?h) \<le> 6485183463413512 / 2 ^ 56" by (simp only: fl_high)
  show "- (9 / 100) \<le> fl (fl (x * fl (18 / 100)) - fl (9 / 100))"
    unfolding fl_18 fl_09 using lo by simp
  show "fl (fl (x * fl (18 / 100)) - fl (9 / 100)) < 9 / 100"
    unfolding fl_18 fl_09 using hi by simp
qed

section \<open>The events of a run follow the text\<close>

lemma err_simps [simp]: "err (Inl x) = Some x" "err (Inr v) = None"
  by (simp_all add: err_def)

lemma logs_Nil [simp]: "logs [] None []" "logs [] (Some x) ss"
  by (simp_all add: logs_def raising_last_def)

lemma logs_weaken: "logs t None ss \<Longrightarrow> logs t r ss"
  unfolding logs_def raising_last_def by (cases r) auto

lemma raising_last_append:
  assumes "raising_last a None" "raising_last b r"
  shows "raising_last (a @ b) r"
  unfolding raising_last_def
proof (intro allI impI)
  fix i x assume i: "i < length (a @ b)" and o: "outcome ((a @ b) ! i) = Inl x"
  show "Suc i = length (a @ b) \<and> r = Some x"
  proof (cases "i < length a")
    case True
    with assms(1) o show ?thesis by (auto simp: raising_last_def nth_append)
  next
    case False
    with i o have "i - length a < length b" "outcome (b ! (i - length a)) = Inl x"
      by (auto simp: nth_append)
    with assms(2) have "Suc (i - length a) = length b \<and> r = Some x"
      by (auto simp: raising_last_def)
    with False show ?thesis by auto
  qed
qed

lemma logs_seq: "logs t1 None ss1 \<Longrightarrow> logs t2 r ss2 \<Longrightarrow> logs (t1 @ t2) r (ss1 @ ss2)"
  unfolding logs_def by (auto simp: raising_last_append split: option.splits)

lemma logs_fail: "logs t (Some x) ss1 \<Longrightarrow> logs t (Some x) (ss1 @ ss2)"
  unfolding logs_def by (auto simp: prefix_def)

lemma logs_bind:
  assumes "logs t1 (err r1) ss1"
    and "\<And>x. r1 = Inl x \<Longrightarrow> r = Some x \<and> t = t1"
    and "\<And>v. r1 = Inr v \<Longrightarrow> \<exists>t2. t = t1 @ t2 \<and> logs t2 r ss2"
  shows "logs t r (ss1 @ ss2)"
proof (cases r1)
  case (Inl x)
  with assms(1,2) show ?thesis by (auto intro: logs_fail)
next
  case (Inr v)
  with assms(1,3) show ?thesis by (auto intro: logs_seq)
qed

lemma invoke_logs: "invoke lib s std a st = (r, st', t) \<Longrightarrow> logs t (err r) [s]"
  unfolding invoke_def logs_def raising_last_def
  by (auto simp: err_def split: option.splits sum.splits prod.splits)

lemma eval_logs:
  "eval lib e st = (r, st', t) \<Longrightarrow> logs t (err r) (sites_expr e)"
  "evals lib es st = (rs, st', t) \<Longrightarrow> logs t (err rs) (sites_exprs es)"
  "evalkw lib kws st = (rk, st', t) \<Longrightarrow> logs t (err rk) (sites_kw kws)"
proof (induction lib e st and lib es st and lib kws st arbitrary: r st' t and rs st' t and rk st' t
    rule: eval_evals_evalkw.induct)
  case (4 lib x st)
  then show ?case by (auto simp: logs_def raising_last_def split: option.splits)
next
  case (5 lib es st)
  then show ?case by (auto split: sum.splits prod.splits)
next
  case (6 lib es st)
  then show ?case by (auto split: sum.splits prod.splits)
next
  case (7 lib e st)
  obtain r1 st1 t1 where e1: "eval lib e st = (r1, st1, t1)" by (cases "eval lib e st")
  from 7(1)[OF e1] 7(2) e1 show ?case
    by (cases r1) (auto intro: logs_weaken)
next
  case (8 lib e1 bop e2 st)
  obtain r1 st1 t1 where e1: "eval lib e1 st = (r1, st1, t1)" by (cases "eval lib e1 st")
  show ?case unfolding sites_expr.simps
  proof (rule logs_bind[OF 8(1)[OF e1]])
    fix x assume "r1 = Inl x"
    with 8(3) e1 show "err r = Some x \<and> t = t1" by auto
  next
    fix v assume v: "r1 = Inr v"
    obtain r2 st2 t2 where e2: "eval lib e2 st1 = (r2, st2, t2)" by (cases "eval lib e2 st1")
    have "logs t2 (err r2) (sites_expr e2)" using 8(2)[OF _ _ _ e2] e1 v by simp
    with 8(3) e1 v e2 show "\<exists>t2. t = t1 @ t2 \<and> logs t2 (err r) (sites_expr e2)"
      by (cases r2) (auto intro: logs_weaken)
  qed
next
  case (9 lib x p as kws st)
  show ?case
  proof (cases "lookup st x")
    case None
    with 9(3) have "r = Inl (Own (NameError x))" "t = []" by auto
    then show ?thesis by simp
  next
    case (Some f)
    obtain r1 st1 t1 where e1: "evals lib as st = (r1, st1, t1)" by (cases "evals lib as st")
    show ?thesis unfolding sites_expr.simps
    proof (rule logs_bind[OF 9(1)[OF Some e1]])
      fix y assume "r1 = Inl y"
      with 9(3) Some e1 show "err r = Some y \<and> t = t1" by auto
    next
      fix vs assume vs: "r1 = Inr vs"
      obtain r2 st2 t2 where e2: "evalkw lib kws st1 = (r2, st2, t2)"
        by (cases "evalkw lib kws st1")
      have x2: "logs t2 (err r2) (sites_kw kws)"
        using 9(2)[OF Some _ _ _ e2] e1 vs by simp
      obtain r3 st3 t3 where
        e3: "invoke lib (SCall x p) (module_of f) (LCall f p vs (projr r2)) st2 = (r3, st3, t3)"
        by (cases "invoke lib (SCall x p) (module_of f) (LCall f p vs (projr r2)) st2")
      have "logs (t2 @ (if isl r2 then [] else t3)) (err r) (sites_kw kws @ [SCall x p])"
      proof (rule logs_bind[OF x2])
        fix y assume "r2 = Inl y"
        with 9(3) Some e1 vs e2 show "err r = Some y \<and> t2 @ (if isl r2 then [] else t3) = t2"
          by auto
      next
        fix kvs assume kvs: "r2 = Inr kvs"
        with 9(3) Some e1 vs e2 e3 have "r = r3" by auto
        with invoke_logs[OF e3] kvs
        show "\<exists>t2'. t2 @ (if isl r2 then [] else t3) = t2 @ t2' \<and> logs t2' (err r) [SCall x p]"
          by auto
      qed
      moreover have "t = t1 @ t2 @ (if isl r2 then [] else t3)"
        using 9(3) Some e1 vs e2 e3 by (cases r2) auto
      ultimately show "\<exists>t2. t = t1 @ t2 \<and> logs t2 (err r) (sites_kw kws @ [SCall x p])"
        by blast
    qed
  qed
next
  case (11 lib e es st)
  obtain r1 st1 t1 where e1: "eval lib e st = (r1, st1, t1)" by (cases "eval lib e st")
  show ?case unfolding sites_exprs.simps
  proof (rule logs_bind[OF 11(1)[OF e1]])
    fix x assume "r1 = Inl x"
    with 11(3) e1 show "err rs = Some x \<and> t = t1" by auto
  next
    fix v assume v: "r1 = Inr v"
    obtain r2 st2 t2 where e2: "evals lib es st1 = (r2, st2, t2)" by (cases "evals lib es st1")
    have "logs t2 (err r2) (sites_exprs es)" using 11(2)[OF _ _ _ e2] e1 v by simp
    with 11(3) e1 v e2 show "\<exists>t2. t = t1 @ t2 \<and> logs t2 (err rs) (sites_exprs es)"
      by (cases r2) auto
  qed
next
  case (13 lib k e kws st)
  obtain r1 st1 t1 where e1: "eval lib e st = (r1, st1, t1)" by (cases "eval lib e st")
  show ?case unfolding sites_kw.simps
  proof (rule logs_bind[OF 13(1)[OF e1]])
    fix x assume "r1 = Inl x"
    with 13(3) e1 show "err rk = Some x \<and> t = t1" by auto
  next
    fix v assume v: "r1 = Inr v"
    obtain r2 st2 t2 where e2: "evalkw lib kws st1 = (r2, st2, t2)" by (cases "evalkw lib kws st1")
    have "logs t2 (err r2) (sites_kw kws)" using 13(2)[OF _ _ _ e2] e1 v by simp
    with 13(3) e1 v e2 show "\<exists>t2. t = t1 @ t2 \<and> logs t2 (err rk) (sites_kw kws)"
      by (cases r2) auto
  qed
qed auto

lemma exec_stmt_logs:
  "exec_stmt lib s st = (r, st', t) \<Longrightarrow> logs t r (sites_stmt s)"
proof (cases s)
  case (AttrAssign x p e)
  assume a: "exec_stmt lib s st = (r, st', t)"
  obtain r1 st1 t1 where e1: "eval lib e st = (r1, st1, t1)" by (cases "eval lib e st")
  show ?thesis unfolding AttrAssign sites_stmt.simps
  proof (rule logs_bind[OF eval_logs(1)[OF e1]])
    fix y assume "r1 = Inl y"
    with a AttrAssign e1 show "r = Some y \<and> t = t1" by auto
  next
    fix v assume v: "r1 = Inr v"
    show "\<exists>t2. t = t1 @ t2 \<and> logs t2 r [SSetAttr x p]"
    proof (cases "lookup st1 x")
      case None
      with a AttrAssign e1 v have "r = Some (Own (NameError x))" "t = t1 @ []" by auto
      then show ?thesis by (intro exI[of _ "[]"]) simp
    next
      case (Some f)
      obtain r2 st2 t2 where
        e2: "invoke lib (SSetAttr x p) (module_of f) (LSetAttr f p v) st1 = (r2, st2, t2)"
        by (cases "invoke lib (SSetAttr x p) (module_of f) (LSetAttr f p v) st1")
      have "r = err r2" "t = t1 @ t2" using a AttrAssign e1 v Some e2
        by (auto split: sum.splits)
      with invoke_logs[OF e2] show ?thesis by auto
    qed
  qed
qed (auto split: sum.splits prod.splits dest!: invoke_logs eval_logs(1))

lemma exec_logs:
  "exec lib ss st = (r, st', t) \<Longrightarrow> logs t r (concat (map sites_stmt ss))"
proof (induction ss arbitrary: st r st' t)
  case Nil then show ?case by simp
next
  case (Cons s ss)
  obtain r1 st1 t1 where e1: "exec_stmt lib s st = (r1, st1, t1)" by (cases "exec_stmt lib s st")
  note x1 = exec_stmt_logs[OF e1]
  show ?case
  proof (cases r1)
    case None
    obtain r2 st2 t2 where e2: "exec lib ss st1 = (r2, st2, t2)" by (cases "exec lib ss st1")
    from Cons.IH[OF e2] x1 None Cons.prems e1 e2 show ?thesis by (auto intro: logs_seq)
  next
    case (Some y)
    with Cons e1 x1 show ?thesis by (auto intro: logs_fail)
  qed
qed

lemma exec_cell_code: "is_code c \<Longrightarrow> exec_cell lib c st = exec lib (body c) st"
  by (cases c) simp_all

lemma run_cells_logs:
  "list_all is_code cs \<Longrightarrow> run_cells lib cs st = (r, st', t) \<Longrightarrow> logs t r (sites cs)"
proof (induction cs arbitrary: st r st' t)
  case Nil then show ?case by (simp add: sites_def statements_def)
next
  case (Cons c cs)
  have c: "exec_cell lib c st = exec lib (body c) st"
    using Cons.prems(1) by (simp add: exec_cell_code)
  have cs: "list_all is_code cs" using Cons.prems(1) by simp
  obtain r1 st1 t1 where e1: "exec lib (body c) st = (r1, st1, t1)"
    by (cases "exec lib (body c) st")
  note x1 = exec_logs[OF e1]
  show ?case
  proof (cases r1)
    case None
    obtain r2 st2 t2 where e2: "run_cells lib cs st1 = (r2, st2, t2)"
      by (cases "run_cells lib cs st1")
    from Cons.IH[OF cs e2] x1 None Cons.prems(2) c e1 e2 show ?thesis
      by (auto simp: sites_def statements_def intro: logs_seq)
  next
    case (Some y)
    with Cons.prems(2) c e1 x1 show ?thesis
      by (auto simp: sites_def statements_def intro: logs_fail)
  qed
qed

lemma logs_sites_subset: "logs t r ss \<Longrightarrow> set (map site t) \<subseteq> set ss"
  by (cases r) (auto simp: logs_def dest!: set_mono_prefix)

lemma exec_cell_sites:
  assumes "exec_cell lib c st = (r, st', t)"
  shows "set (map site t) \<subseteq> set (concat (map sites_stmt (body c)))"
proof -
  obtain r1 st1 t1 where e1: "exec lib (body c) st = (r1, st1, t1)"
    by (cases "exec lib (body c) st")
  have "t = t1" using assms e1 by (cases c) simp_all
  then show ?thesis using logs_sites_subset[OF exec_logs[OF e1]] by simp
qed

lemma run_cells_sites:
  "run_cells lib cs st = (r, st', t) \<Longrightarrow> set (map site t) \<subseteq> set (sites cs)"
proof (induction cs arbitrary: st r st' t)
  case Nil then show ?case by simp
next
  case (Cons c cs)
  obtain r1 st1 t1 where e1: "exec_cell lib c st = (r1, st1, t1)"
    by (cases "exec_cell lib c st")
  note x1 = exec_cell_sites[OF e1]
  have split: "set (sites (c # cs)) = set (concat (map sites_stmt (body c))) \<union> set (sites cs)"
    by (simp add: sites_def statements_def)
  show ?case
  proof (cases r1)
    case None
    obtain r2 st2 t2 where e2: "run_cells lib cs st1 = (r2, st2, t2)"
      by (cases "run_cells lib cs st1")
    have "t = t1 @ t2" using Cons.prems e1 None e2 by simp
    then have "set (map site t) = set (map site t1) \<union> set (map site t2)" by simp
    then show ?thesis using x1 Cons.IH[OF e2] split by blast
  next
    case (Some y)
    then have "t = t1" using Cons.prems e1 by simp
    then show ?thesis using x1 split by blast
  qed
qed

lemma run_cells_append:
  "run_cells lib (cs1 @ cs2) st =
     (case run_cells lib cs1 st of
        (Some e, st1, t1) \<Rightarrow> (Some e, st1, t1)
      | (None, st1, t1) \<Rightarrow>
          (case run_cells lib cs2 st1 of (r, st2, t2) \<Rightarrow> (r, st2, t1 @ t2)))"
proof (induction cs1 arbitrary: st)
  case Nil
  then show ?case by (cases "run_cells lib cs2 st") simp
next
  case (Cons c cs1)
  show ?case
  proof (cases "exec_cell lib c st")
    case (fields r0 st0 t0)
    show ?thesis
    proof (cases r0)
      case None
      then show ?thesis using fields Cons.IH[of st0]
        by (auto split: prod.splits option.splits)
    next
      case (Some e) then show ?thesis using fields by simp
    qed
  qed
qed

section \<open>Replacing the value returned by \<open>solve\<close>\<close>

lemma no_solve_append [simp]: "no_solve (a @ b) \<longleftrightarrow> no_solve a \<and> no_solve b"
  by (simp add: no_solve_def)

lemma no_solve_Nil [simp]: "no_solve []"
  by (simp add: no_solve_def)

lemma invoke_other:
  "\<not> is_solve a \<Longrightarrow> invoke (with_solve_result g lib) s std a st = invoke lib s std a st"
  by (cases std) (simp_all add: invoke_def with_solve_result_def)

lemma is_solve_LCall [simp]: "is_solve (LCall f p vs kvs) \<longleftrightarrow> p = [''solve'']"
  by (simp add: is_solve_def)

lemma is_solve_other [simp]: "\<not> is_solve (LImport m)" "\<not> is_solve (LSetAttr f p v)"
  by (simp_all add: is_solve_def)

lemma no_solve_SCall [simp]: "no_solve [SCall x p] \<longleftrightarrow> p \<noteq> [''solve'']"
  by (simp add: no_solve_def solve_site_def)

lemma no_solve_other [simp]: "no_solve [SImport m]" "no_solve [SSetAttr x p]"
  by (simp_all add: no_solve_def solve_site_def)

lemma eval_other:
  fixes lib :: "('h, 'e, 'w) library"
  shows "no_solve (sites_expr e) \<Longrightarrow> eval (with_solve_result g lib) e st = eval lib e st"
    and "no_solve (sites_exprs es) \<Longrightarrow> evals (with_solve_result g lib) es st = evals lib es st"
    and "no_solve (sites_kw kws) \<Longrightarrow> evalkw (with_solve_result g lib) kws st = evalkw lib kws st"
proof (induction lib e st and lib es st and lib kws st rule: eval_evals_evalkw.induct)
  case (9 lib x p as kws st)
  then show ?case
    by (auto split: option.splits sum.splits prod.splits simp: invoke_other)
qed (auto split: option.splits sum.splits prod.splits)

lemma exec_stmt_other:
  "no_solve (sites_stmt s) \<Longrightarrow> exec_stmt (with_solve_result g lib) s st = exec_stmt lib s st"
  by (cases s) (auto simp: eval_other invoke_other split: option.splits sum.splits prod.splits)

lemma list_all2_same_refl [simp]: "list_all2 same_but_solve t t"
  by (simp add: list_all2_refl same_but_solve_def)

lemma same_run_refl [simp]: "same_run x x"
  by (cases x) simp

lemma invoke_solve:
  assumes "invoke lib s std a st = (r, st', t)"
  shows "\<exists>r' t'. invoke (with_solve_result g lib) s std a st = (r', st', t') \<and> err r' = err r \<and>
           list_all2 same_but_solve t t'"
  using assms
  by (auto simp: invoke_def with_solve_result_def same_but_solve_def
      split: option.splits sum.splits prod.splits)

lemma list_all2_same_append:
  "list_all2 same_but_solve a a' \<Longrightarrow> list_all2 same_but_solve b b' \<Longrightarrow>
   list_all2 same_but_solve (a @ b) (a' @ b')"
  by (rule list_all2_appendI)

lemma exec_stmt_discard:
  assumes "discards_solve s"
  shows "same_run (exec_stmt lib s st) (exec_stmt (with_solve_result g lib) s st)"
proof (cases "\<exists>x p as kws. s = ExprStmt (Call x p as kws)")
  case False
  then have "no_solve (sites_stmt s)" using assms
    by (cases s rule: discards_solve.cases) auto
  then show ?thesis by (simp add: exec_stmt_other)
next
  case True
  then obtain x p as kws where s: "s = ExprStmt (Call x p as kws)" by blast
  have a: "no_solve (sites_exprs as)" and k: "no_solve (sites_kw kws)"
    using assms s by simp_all
  show ?thesis
  proof (cases "lookup st x")
    case None
    then show ?thesis by (simp add: s)
  next
    case (Some f)
    obtain r1 st1 t1 where e1: "evals lib as st = (r1, st1, t1)" by (cases "evals lib as st")
    show ?thesis
    proof (cases r1)
      case (Inl y)
      then show ?thesis using Some e1 by (simp add: s eval_other(2)[OF a])
    next
      case vs: (Inr vs)
      obtain r2 st2 t2 where e2: "evalkw lib kws st1 = (r2, st2, t2)"
        by (cases "evalkw lib kws st1")
      show ?thesis
      proof (cases r2)
        case (Inl y)
        then show ?thesis using Some e1 vs e2
          by (simp add: s eval_other(2)[OF a] eval_other(3)[OF k])
      next
        case kvs: (Inr kvs)
        obtain r3 st3 t3 where
          e3: "invoke lib (SCall x p) (module_of f) (LCall f p vs kvs) st2 = (r3, st3, t3)"
          by (cases "invoke lib (SCall x p) (module_of f) (LCall f p vs kvs) st2")
        from invoke_solve[OF e3, of g] obtain r3' t3' where
          e3': "invoke (with_solve_result g lib) (SCall x p) (module_of f) (LCall f p vs kvs) st2
                  = (r3', st3, t3')"
          and r3: "err r3' = err r3" and t3: "list_all2 same_but_solve t3 t3'" by blast
        show ?thesis using Some e1 vs e2 kvs e3 e3' r3 t3
          by (cases r3; cases r3')
            (auto simp: s eval_other(2)[OF a] eval_other(3)[OF k] intro!: list_all2_appendI)
      qed
    qed
  qed
qed

lemma exec_discard:
  assumes "\<forall>s\<in>set ss. discards_solve s"
  shows "same_run (exec lib ss st) (exec (with_solve_result g lib) ss st)"
  using assms
proof (induction ss arbitrary: st)
  case Nil then show ?case by simp
next
  case (Cons s ss)
  obtain r1 st1 t1 where e1: "exec_stmt lib s st = (r1, st1, t1)" by (cases "exec_stmt lib s st")
  obtain r1' st1' t1' where e1': "exec_stmt (with_solve_result g lib) s st = (r1', st1', t1')"
    by (cases "exec_stmt (with_solve_result g lib) s st")
  have "same_run (exec_stmt lib s st) (exec_stmt (with_solve_result g lib) s st)"
    using Cons.prems by (intro exec_stmt_discard) simp
  then have eq: "r1' = r1" "st1' = st1" and t1: "list_all2 same_but_solve t1 t1'"
    using e1 e1' by simp_all
  show ?case
  proof (cases r1)
    case (Some y) then show ?thesis using e1 e1' eq t1 by simp
  next
    case None
    obtain r2 st2 t2 where e2: "exec lib ss st1 = (r2, st2, t2)" by (cases "exec lib ss st1")
    obtain r2' st2' t2' where e2': "exec (with_solve_result g lib) ss st1 = (r2', st2', t2')"
      by (cases "exec (with_solve_result g lib) ss st1")
    have "same_run (exec lib ss st1) (exec (with_solve_result g lib) ss st1)"
      using Cons.prems by (intro Cons.IH) simp
    then show ?thesis using e1 e1' eq t1 None e2 e2' by (auto intro!: list_all2_appendI)
  qed
qed

lemma exec_cell_discard:
  assumes "\<forall>s\<in>set (body c). discards_solve s"
  shows "same_run (exec_cell lib c st) (exec_cell (with_solve_result g lib) c st)"
proof -
  obtain r1 st1 t1 where e1: "exec lib (body c) st = (r1, st1, t1)"
    by (cases "exec lib (body c) st")
  obtain r1' st1' t1' where e1': "exec (with_solve_result g lib) (body c) st = (r1', st1', t1')"
    by (cases "exec (with_solve_result g lib) (body c) st")
  have "same_run (exec lib (body c) st) (exec (with_solve_result g lib) (body c) st)"
    using assms by (intro exec_discard)
  then show ?thesis using e1 e1' by (cases c) simp_all
qed

lemma run_cells_discard:
  assumes "\<forall>s\<in>set (statements cs). discards_solve s"
  shows "same_run (run_cells lib cs st) (run_cells (with_solve_result g lib) cs st)"
  using assms
proof (induction cs arbitrary: st)
  case Nil then show ?case by simp
next
  case (Cons c cs)
  obtain r1 st1 t1 where e1: "exec_cell lib c st = (r1, st1, t1)"
    by (cases "exec_cell lib c st")
  obtain r1' st1' t1' where e1': "exec_cell (with_solve_result g lib) c st = (r1', st1', t1')"
    by (cases "exec_cell (with_solve_result g lib) c st")
  have "same_run (exec_cell lib c st) (exec_cell (with_solve_result g lib) c st)"
    using Cons.prems by (intro exec_cell_discard) (simp add: statements_def)
  then have eq: "r1' = r1" "st1' = st1" and t1: "list_all2 same_but_solve t1 t1'"
    using e1 e1' by simp_all
  show ?case
  proof (cases r1)
    case (Some y) then show ?thesis using e1 e1' eq t1 by simp
  next
    case None
    obtain r2 st2 t2 where e2: "run_cells lib cs st1 = (r2, st2, t2)"
      by (cases "run_cells lib cs st1")
    obtain r2' st2' t2' where e2': "run_cells (with_solve_result g lib) cs st1 = (r2', st2', t2')"
      by (cases "run_cells (with_solve_result g lib) cs st1")
    have "same_run (run_cells lib cs st1) (run_cells (with_solve_result g lib) cs st1)"
      using Cons.prems by (intro Cons.IH) (simp add: statements_def)
    then show ?thesis using e1 e1' eq t1 None e2 e2' by (auto intro!: list_all2_appendI)
  qed
qed

lemma notebook_discards_solve: "\<forall>s\<in>set (statements notebook). discards_solve s"
  by (simp add: statements_def notebook_def)

section \<open>Variables that are not read\<close>

lemma unread_simps [simp]:
  "unread X []" "unread X (n # ns) \<longleftrightarrow> n \<notin> set X \<and> unread X ns"
  "unread X (a @ b) \<longleftrightarrow> unread X a \<and> unread X b"
  by (auto simp: unread_def)

lemma same_except_refl [simp]: "same_except X st st"
  by (simp add: same_except_def)













section \<open>The text of the notebook\<close>

lemma sites_notebook:
  "sites notebook =
    [SImport ''sys'', SCall ''sys'' [''path'', ''append''], SImport ''optimus'',
     SCall ''optimus'' [''source'', ''create_bowl''],
     SCall ''optimus'' [''material'', ''load_material''],
     SCall ''optimus'' [''material'', ''load_material''],
     SCall ''optimus'' [''geometry'', ''load'', ''import_grid''],
     SCall ''optimus'' [''geometry'', ''load'', ''import_grid''],
     SImport ''warnings'', SCall ''warnings'' [''simplefilter''],
     SCall ''optimus'' [''postprocess'', ''Visualise3DGrid''],
     SCall ''grids'' [''create_computational_grid''], SCall ''grids'' [''display_field''],
     SCall ''optimus'' [''utils'', ''mesh'', ''scale_mesh''],
     SCall ''optimus'' [''model'', ''create_default_model''],
     SCall ''model'' [''solve''],
     SSetAttr ''optimus'' [''global_parameters'', ''postprocessing'', ''quadrature_order''],
     SCall ''optimus'' [''postprocess'', ''VisualisePlane''],
     SCall ''postprocess_plane'' [''create_computational_grid''],
     SCall ''postprocess_plane'' [''compute_fields''],
     SCall ''optimus'' [''postprocess'', ''Visualise3DField''],
     SCall ''postprocess_3D'' [''create_computational_grid''],
     SCall ''postprocess_3D'' [''add_VisualisePlane''],
     SCall ''postprocess_3D'' [''compute_fields''],
     SCall ''postprocess_3D'' [''display_field''],
     SImport ''numpy'', SCall ''np'' [''random'', ''rand''],
     SCall ''optimus'' [''postprocess'', ''VisualiseCloudPoints''],
     SCall ''points'' [''create_computational_grid''],
     SCall ''points'' [''compute_fields''], SCall ''points'' [''display_field'']]"
  by (simp add: sites_def statements_def notebook_def)

lemma viewers_notebook:
  "viewers notebook = [''grids'', ''postprocess_plane'', ''postprocess_3D'', ''points'']"
  by (simp add: viewers_def statements_def notebook_def)

lemma model_viewers_notebook:
  "model_viewers notebook = [''postprocess_plane'', ''postprocess_3D'', ''points'']"
  by (simp add: model_viewers_def statements_def notebook_def)

lemma before_quadrature:
  "filter (postprocess_op (viewers notebook)) (before quadrature_site (sites notebook)) =
     [SCall ''optimus'' [''postprocess'', ''Visualise3DGrid''],
      SCall ''grids'' [''create_computational_grid''], SCall ''grids'' [''display_field'']]"
  by (simp add: sites_notebook viewers_notebook before_def quadrature_site_def
      postprocess_op_def is_constructor_def)


section \<open>The cell of \<open>solve\<close>\<close>

lemma assign_binds:
  "exec_stmt lib (Assign x e) st = (None, st', t) \<Longrightarrow> env st' x \<noteq> None"
  by (auto simp: bind_name_def split: prod.splits sum.splits)

lemma exec_last_assign:
  assumes "exec lib [s, Assign x e] st = (None, st', t)"
  shows "env st' x \<noteq> None"
proof -
  obtain r1 st1 t1 where e1: "exec_stmt lib s st = (r1, st1, t1)"
    by (cases "exec_stmt lib s st")
  obtain r2 st2 t2 where e2: "exec_stmt lib (Assign x e) st1 = (r2, st2, t2)"
    by (cases "exec_stmt lib (Assign x e) st1")
  have "r1 = None" using assms e1 by (cases r1) (simp_all del: exec_stmt.simps)
  then have "r2 = None \<and> st2 = st'"
    using assms e1 e2 by (cases r2) (simp_all del: exec_stmt.simps)
  then show ?thesis using assign_binds[of lib x e st1 st' t2] e2 by simp
qed

lemma notebook_6: "\<exists>s e. take 7 notebook = take 6 notebook @ [Code [s, Assign ''model'' e]]"
  by (simp add: notebook_def)

lemma model_bound:
  assumes "run_cells lib (take 7 notebook) st = (None, st', t)"
  shows "env st' ''model'' \<noteq> None"
proof -
  from notebook_6 obtain s e where
    n: "take 7 notebook = take 6 notebook @ [Code [s, Assign ''model'' e]]" by blast
  obtain r1 st1 t1 where e1: "run_cells lib (take 6 notebook) st = (r1, st1, t1)"
    by (cases "run_cells lib (take 6 notebook) st")
  obtain r2 st2 t2 where e2: "exec lib [s, Assign ''model'' e] st1 = (r2, st2, t2)"
    by (cases "exec lib [s, Assign ''model'' e] st1")
  have run: "run_cells lib (take 7 notebook) st =
     (case run_cells lib (take 6 notebook) st of
        (Some e, st1, t1) \<Rightarrow> (Some e, st1, t1)
      | (None, st1, t1) \<Rightarrow>
          (case run_cells lib [Code [s, Assign ''model'' e]] st1 of
             (r, st2, t2) \<Rightarrow> (r, st2, t1 @ t2)))"
    by (simp only: n run_cells_append)
  have r1: "r1 = None" using assms run e1 by (cases r1) simp_all
  have "r2 = None \<and> st2 = st'"
    using assms run e1 r1 e2 by (cases r2) (simp_all del: exec.simps)
  then show ?thesis using exec_last_assign[of lib s "''model''" e st1 st' t2] e2 by simp
qed

lemma notebook_7: "notebook ! 7 = Timed [ExprStmt (Call ''model'' [''solve''] [] [])]"
  by (simp add: notebook_def)

lemma solve_cell:
  assumes "env st ''model'' \<noteq> None" and "run_cells lib [notebook ! 7] st = (r, st', t)"
  shows "r = None \<and> (\<exists>ev. t = [ev] \<and> site ev = solve_call)"
  using assms unfolding notebook_7
  by (auto simp: lookup_def invoke_def solve_call_def split: prod.splits option.splits sum.splits)

lemma notebook_three: "notebook = take 7 notebook @ [notebook ! 7] @ drop 8 notebook"
  by (simp add: notebook_def)

lemma sites_three:
  "sites notebook = sites (take 7 notebook) @ solve_call # sites (drop 8 notebook)"
  by (simp add: sites_def statements_def notebook_def solve_call_def)

lemma code_cells: "list_all is_code (take 7 notebook)" "list_all is_code (drop 8 notebook)"
  by (simp_all add: notebook_def)

lemma run_three:
  "run lib st =
     (case run_cells lib (take 7 notebook) st of
        (Some e, st1, t1) \<Rightarrow> (Some e, st1, t1)
      | (None, st1, t1) \<Rightarrow>
          (case (case run_cells lib [notebook ! 7] st1 of
                  (Some e, st2, t2) \<Rightarrow> (Some e, st2, t2)
                | (None, st2, t2) \<Rightarrow>
                    (case run_cells lib (drop 8 notebook) st2 of
                       (r, st3, t3) \<Rightarrow> (r, st3, t2 @ t3)))
           of (r, st2, t2) \<Rightarrow> (r, st2, t1 @ t2)))"
  unfolding run_def by (subst notebook_three) (simp only: run_cells_append)

lemma run_shape:
  assumes "run lib st = (r, st', t)"
  shows "(\<exists>e. r = Some e \<and> run_cells lib (take 7 notebook) st = (Some e, st', t)) \<or>
         (\<exists>stA tA stB ev tC.
             run_cells lib (take 7 notebook) st = (None, stA, tA) \<and> site ev = solve_call \<and>
             run_cells lib (drop 8 notebook) stB = (r, st', tC) \<and> t = tA @ ev # tC)"
proof -
  obtain rA stA tA where a: "run_cells lib (take 7 notebook) st = (rA, stA, tA)"
    by (cases "run_cells lib (take 7 notebook) st")
  show ?thesis
  proof (cases rA)
    case (Some e)
    then have "run lib st = (Some e, stA, tA)" using a by (simp add: run_three)
    then have "r = Some e" "stA = st'" "tA = t" using assms by simp_all
    then show ?thesis using a Some by blast
  next
    case None
    obtain rB stB tB where b: "run_cells lib [notebook ! 7] stA = (rB, stB, tB)"
      by (cases "run_cells lib [notebook ! 7] stA")
    have "run_cells lib (take 7 notebook) st = (None, stA, tA)" using a None by simp
    from solve_cell[OF model_bound[OF this] b] obtain ev where
      rB: "rB = None" and tB: "tB = [ev]" and ev: "site ev = solve_call" by auto
    obtain rC stC tC where c: "run_cells lib (drop 8 notebook) stB = (rC, stC, tC)"
      by (cases "run_cells lib (drop 8 notebook) stB")
    have "run lib st = (rC, stC, tA @ ev # tC)"
      using a None b rB tB c by (simp add: run_three)
    then show ?thesis using assms a None ev c by auto
  qed
qed

lemma raising_last_weaken: "raising_last t r \<Longrightarrow> raising_last_but q t r"
  by (simp add: raising_last_def raising_last_but_def)

lemma raising_last_but_solve:
  assumes "raising_last ta None" "site ev = q" "raising_last tc r"
  shows "raising_last_but q (ta @ ev # tc) r"
  unfolding raising_last_but_def
proof (intro allI impI)
  fix i x
  assume i: "i < length (ta @ ev # tc)" and o: "outcome ((ta @ ev # tc) ! i) = Inl x"
  consider "i < length ta" | "i = length ta" | "length ta < i" by linarith
  then show "site ((ta @ ev # tc) ! i) = q \<or> Suc i = length (ta @ ev # tc) \<and> r = Some x"
  proof cases
    case 1
    then have "outcome (ta ! i) = Inl x" using o by (simp add: nth_append)
    then show ?thesis using assms(1) 1 by (auto simp: raising_last_def)
  next
    case 2
    then show ?thesis using assms(2) by simp
  next
    case 3
    define j where "j = i - Suc (length ta)"
    have j: "i = length ta + Suc j" "j < length tc" using 3 i by (auto simp: j_def)
    have "(ta @ ev # tc) ! i = tc ! j" unfolding j(1) by (simp add: nth_append)
    then have "outcome (tc ! j) = Inl x" using o by simp
    then have "Suc j = length tc \<and> r = Some x"
      using assms(3) j(2) by (auto simp: raising_last_def)
    then show ?thesis using j(1) by simp
  qed
qed

lemma run_sites_prefix:
  assumes "run lib st = (r, st', t)"
  shows "prefix (map site t) (sites notebook)"
proof -
  from run_shape[OF assms] consider
    (stop) e where "run_cells lib (take 7 notebook) st = (Some e, st', t)"
  | (go) stA tA stB ev tC where
      "run_cells lib (take 7 notebook) st = (None, stA, tA)" "site ev = solve_call"
      "run_cells lib (drop 8 notebook) stB = (r, st', tC)" "t = tA @ ev # tC"
    by blast
  then show ?thesis
  proof cases
    case stop
    from run_cells_logs[OF code_cells(1) stop]
    have "prefix (map site t) (sites (take 7 notebook))" by (simp add: logs_def)
    then show ?thesis unfolding sites_three by (rule prefix_prefix)
  next
    case go
    from run_cells_logs[OF code_cells(1) go(1)]
    have ta: "map site tA = sites (take 7 notebook)" by (simp add: logs_def)
    from run_cells_logs[OF code_cells(2) go(3)]
    have "prefix (map site tC) (sites (drop 8 notebook))"
      by (cases r) (auto simp: logs_def)
    then show ?thesis unfolding sites_three go(4) using ta go(2) by simp
  qed
qed

lemma run_sites:
  assumes "run lib st = (None, st', t)"
  shows "map site t = sites notebook"
proof -
  from run_shape[OF assms] obtain stA tA stB ev tC where
    go: "run_cells lib (take 7 notebook) st = (None, stA, tA)" "site ev = solve_call"
      "run_cells lib (drop 8 notebook) stB = (None, st', tC)" "t = tA @ ev # tC"
    by auto
  from run_cells_logs[OF code_cells(1) go(1)]
  have ta: "map site tA = sites (take 7 notebook)" by (simp add: logs_def)
  from run_cells_logs[OF code_cells(2) go(3)]
  have "map site tC = sites (drop 8 notebook)" by (simp add: logs_def)
  then show ?thesis unfolding sites_three go(4) using ta go(2) by simp
qed

lemma run_raising:
  assumes "run lib st = (r, st', t)"
  shows "raising_last_but solve_call t r"
proof -
  from run_shape[OF assms] consider
    (stop) e where "r = Some e" "run_cells lib (take 7 notebook) st = (Some e, st', t)"
  | (go) stA tA stB ev tC where
      "run_cells lib (take 7 notebook) st = (None, stA, tA)" "site ev = solve_call"
      "run_cells lib (drop 8 notebook) stB = (r, st', tC)" "t = tA @ ev # tC"
    by blast
  then show ?thesis
  proof cases
    case stop
    from run_cells_logs[OF code_cells(1) stop(2)] stop(1)
    show ?thesis by (simp add: logs_def raising_last_weaken)
  next
    case go
    from run_cells_logs[OF code_cells(1) go(1)] have ta: "raising_last tA None"
      by (simp add: logs_def)
    from run_cells_logs[OF code_cells(2) go(3)] have tc: "raising_last tC r"
      by (simp add: logs_def)
    show ?thesis unfolding go(4) by (rule raising_last_but_solve[OF ta go(2) tc])
  qed
qed

section \<open>Running the notebook on an arbitrary library\<close>

lemma tidy_id: assumes "rand_returns_array lib" shows "tidy lib = lib"
proof (intro ext)
  fix w a
  show "tidy lib w a = lib w a"
  proof (cases "lib w a")
    case (Inl e) then show ?thesis by (simp add: tidy_def)
  next
    case (Inr vw)
    obtain r w' where vw: "vw = (r, w')" by (cases vw)
    show ?thesis
    proof (cases "rand_action a")
      case True
      with assms Inr vw have "is_array r" by (auto simp: rand_returns_array_def)
      then have "Array (array_of r) = r" by (cases r) simp_all
      then show ?thesis using Inr vw True by (simp add: tidy_def)
    next
      case False then show ?thesis using Inr vw by (simp add: tidy_def)
    qed
  qed
qed

lemma module_of_simps:
  "module_of (VModule m) = Some m" "module_of (VRef h) = None" "module_of (VArr xs) = None"
  "module_of (to_val r) = None"
  by (cases r; simp add: module_of_def)+

lemma own_simps: "own (Inl x) = Inl (Own x)" "own (Inr v) = Inr v"
  by (simp_all add: own_def)

lemma lookup_rec:
  "lookup \<lparr>env = E, sys_path = P, filters = F, world = W\<rparr> x =
     (case E x of Some v \<Rightarrow> Some v
      | None \<Rightarrow> if x \<in> set warning_classes then Some (VBuiltin x) else None)"
  by (simp add: lookup_def)

lemma bind_name_rec:
  "bind_name x v \<lparr>env = E, sys_path = P, filters = F, world = W\<rparr> =
     \<lparr>env = E(x \<mapsto> v), sys_path = P, filters = F, world = W\<rparr>"
  by (simp add: bind_name_def)

lemma invoke_lib_rec:
  "invoke lib s None a \<lparr>env = E, sys_path = P, filters = F, world = W\<rparr> =
     (case lib W a of
        Inl e \<Rightarrow> (Inl (Raised e), \<lparr>env = E, sys_path = P, filters = F, world = W\<rparr>,
                     [\<lparr>site = s, action = a, outcome = Inl (Raised e)\<rparr>])
      | Inr vw \<Rightarrow> (Inr (to_val (fst vw)),
                     \<lparr>env = E, sys_path = P, filters = F, world = snd vw\<rparr>,
                     [\<lparr>site = s, action = a, outcome = Inr (to_val (fst vw))\<rparr>]))"
  by (simp add: invoke_def split: sum.splits)

lemma invoke_tidy_rec:
  "invoke (tidy lib) s None a \<lparr>env = E, sys_path = P, filters = F, world = W\<rparr> =
     (case lib W a of
        Inl e \<Rightarrow> (Inl (Raised e), \<lparr>env = E, sys_path = P, filters = F, world = W\<rparr>,
                     [\<lparr>site = s, action = a, outcome = Inl (Raised e)\<rparr>])
      | Inr vw \<Rightarrow>
          (Inr (if rand_action a then VArr (array_of (fst vw)) else to_val (fst vw)),
           \<lparr>env = E, sys_path = P, filters = F, world = snd vw\<rparr>,
           [\<lparr>site = s, action = a,
              outcome = Inr (if rand_action a then VArr (array_of (fst vw))
                             else to_val (fst vw))\<rparr>]))"
  by (simp add: invoke_def tidy_def split: sum.splits)

lemma invoke_import_std:
  "invoke lib s (Some m) (LImport m') st =
     (Inr (VModule m'), st, [\<lparr>site = s, action = LImport m', outcome = Inr (VModule m')\<rparr>])"
  by (simp add: invoke_def stdlib_def own_def)

lemma invoke_sys_path_append:
  "invoke lib s (Some ''sys'') (LCall f [''path'', ''append''] [x] [])
      \<lparr>env = E, sys_path = P, filters = F, world = W\<rparr> =
     (Inr VNone, \<lparr>env = E, sys_path = P @ [x], filters = F, world = W\<rparr>,
         [\<lparr>site = s, action = LCall f [''path'', ''append''] [x] [], outcome = Inr VNone\<rparr>])"
  by (simp add: invoke_def stdlib_def sys_path_append_def own_def)

lemma invoke_simplefilter:
  "a \<in> set filter_actions \<Longrightarrow> c \<in> set warning_classes \<Longrightarrow>
   invoke lib s (Some ''warnings'') (LCall f [''simplefilter''] [VStr a, VBuiltin c] [])
      \<lparr>env = E, sys_path = P, filters = F, world = W\<rparr> =
     (Inr VNone, \<lparr>env = E, sys_path = P, filters = (a, c) # remove1 (a, c) F, world = W\<rparr>,
         [\<lparr>site = s, action = LCall f [''simplefilter''] [VStr a, VBuiltin c] [],
                       outcome = Inr VNone\<rparr>])"
  by (simp add: invoke_def stdlib_def simplefilter_def filter_args_def own_def)

lemmas eval_rules = lookup_rec bind_name_rec invoke_import_std
  invoke_sys_path_append invoke_simplefilter
  stdlib_modules_def warning_classes_def filter_actions_def initial_def
  binop_val_def neg_val_def float_arith_def array_arith_def int_arith_def own_simps
  notebook_def run_def run_cells.simps exec_cell.simps
  exec.simps exec_stmt.simps eval.simps evals.simps evalkw.simps
  prod.case sum.case option.case list.case val.case action.case binop.case to_val.simps
  module_of_simps if_True if_False fun_upd_apply rand_action_def
  list.inject char.inject list.distinct simp_thms append.simps list.set insert_iff empty_iff
  fst_conv snd_conv option.distinct option.inject val.distinct val.inject binop.distinct
  arith.simps refl list.map numeral_neq_zero zero_neq_numeral

lemmas eval_congs = sum.case_cong_weak prod.case_cong_weak option.case_cong_weak if_weak_cong
  val.case_cong_weak list.case_cong_weak

lemma take_pred: "take (numeral v) (x # xs) = x # take (pred_numeral v) xs"
  by (simp add: numeral_eq_Suc)

lemma drop_pred: "drop (numeral v) (x # xs) = drop (pred_numeral v) xs"
  by (simp add: numeral_eq_Suc)

lemmas cut_rules = take_pred drop_pred pred_numeral_simps Num.BitM.simps take_0 drop_0


lemma notebook_cut8: "notebook = take 8 notebook @ drop 8 notebook"
  by simp

lemma prepared_never_raises:
  assumes "\<And>w a e. lib w a \<noteq> Inl e"
  shows "case run_cells (tidy lib) (take 8 notebook) (initial sp fs w) of
     (None, st, t) \<Rightarrow>
       env st ''optimus'' \<noteq> None \<and> module_of (the (env st ''optimus'')) = None \<and>
       env st ''model'' \<noteq> None \<and> module_of (the (env st ''model'')) = None
   | (Some e, st, t) \<Rightarrow> False"
  by (simp only: eval_rules cut_rules invoke_tidy_rec assms state.simps option.sel
      cong: eval_congs split: sum.split)

lemma rest_never_raises:
  assumes "\<And>w a e. lib w a \<noteq> Inl e"
    and "E ''optimus'' = Some f" "module_of f = None" "E ''model'' = Some m" "module_of m = None"
  shows "fst (run_cells (tidy lib) (drop 8 notebook)
            \<lparr>env = E, sys_path = P, filters = F, world = W\<rparr>) = None"
  by (simp only: eval_rules cut_rules invoke_tidy_rec assms cong: eval_congs split: sum.split)

lemma never_raises_tidy:
  assumes "\<And>w a e. lib w a \<noteq> Inl e"
  shows "fst (run (tidy lib) (initial sp fs w)) = None"
proof -
  obtain r1 st1 t1 where
    a: "run_cells (tidy lib) (take 8 notebook) (initial sp fs w) = (r1, st1, t1)"
    by (cases "run_cells (tidy lib) (take 8 notebook) (initial sp fs w)")
  have r1: "r1 = None"
    using prepared_never_raises[where lib = lib and sp = sp and fs = fs and w = w, OF assms] a by (cases r1) simp_all
  obtain E P F W where st1: "st1 = \<lparr>env = E, sys_path = P, filters = F, world = W\<rparr>"
    by (cases st1)
  from prepared_never_raises[where lib = lib and sp = sp and fs = fs and w = w, OF assms] a r1 st1 obtain f m where
    "E ''optimus'' = Some f" "module_of f = None" "E ''model'' = Some m" "module_of m = None"
    by auto
  from rest_never_raises[where lib = lib and P = P and F = F and W = W, OF assms this]
  have c: "fst (run_cells (tidy lib) (drop 8 notebook) st1) = None" by (simp only: st1)
  have "run (tidy lib) (initial sp fs w) =
     (case run_cells (tidy lib) (take 8 notebook) (initial sp fs w) of
        (Some e, st1, t1) \<Rightarrow> (Some e, st1, t1)
      | (None, st1, t1) \<Rightarrow>
          (case run_cells (tidy lib) (drop 8 notebook) st1 of
             (r, st2, t2) \<Rightarrow> (r, st2, t1 @ t2)))"
    unfolding run_def by (subst notebook_cut8) (simp only: run_cells_append)
  then show ?thesis using a r1 c by (simp split: prod.splits)
qed

lemma before_solve_case:
  "case run_cells lib (take 7 notebook) (initial sp fs w) of
     (None, st, t) \<Rightarrow>
       sys_path st = sp @ [VStr ''..''] \<and>
       filters st = (''ignore'', ''UserWarning'') # remove1 (''ignore'', ''UserWarning'') fs \<and>
       env st ''optimus'' \<noteq> None \<and> module_of (the (env st ''optimus'')) = None \<and>
       env st ''model'' \<noteq> None \<and> module_of (the (env st ''model'')) = None \<and>
       filter (\<lambda>ev. is_write (action ev)) t = []
   | (Some e, st, t) \<Rightarrow> True"
  by (simp only: eval_rules cut_rules invoke_lib_rec is_write_def filter.simps event.simps
      state.simps option.sel cong: eval_congs split: sum.split)

lemma after_solve_case:
  assumes "E ''optimus'' = Some f" "module_of f = None" "E ''model'' = Some m" "module_of m = None"
  shows "case run_cells lib (drop 8 notebook) \<lparr>env = E, sys_path = P, filters = F, world = W\<rparr> of
     (None, st, t) \<Rightarrow>
       sys_path st = P \<and> filters st = F \<and> env st ''optimus'' = Some f \<and>
       map action (filter (\<lambda>ev. is_write (action ev)) t) =
         [LSetAttr f [''global_parameters'', ''postprocessing'', ''quadrature_order''] (VInt 20)]
   | (Some e, st, t) \<Rightarrow> True"
  by (simp only: eval_rules cut_rules assms invoke_lib_rec is_write_def filter.simps event.simps
      state.simps option.sel cong: eval_congs split: sum.split)


lemma solve_cell_frame:
  assumes "run_cells lib [notebook ! 7] st = (r, st', t)"
  shows "env st' = env st \<and> sys_path st' = sys_path st \<and> filters st' = filters st \<and>
         filter (\<lambda>ev. is_write (action ev)) t = []"
  using assms unfolding notebook_7
  by (auto simp: invoke_def stdlib_def is_write_def split: prod.splits option.splits sum.splits)

lemma run_globals:
  assumes "run lib (initial sp fs w) = (None, st', t)"
  shows "sys_path st' = sp @ [VStr ''..'']"
    and "filters st' = (''ignore'', ''UserWarning'') # remove1 (''ignore'', ''UserWarning'') fs"
    and "\<exists>f. env st' ''optimus'' = Some f \<and>
           map action (filter (\<lambda>ev. is_write (action ev)) t) =
             [LSetAttr f [''global_parameters'', ''postprocessing'', ''quadrature_order'']
                (VInt 20)]"
proof -
  obtain rA stA tA where a: "run_cells lib (take 7 notebook) (initial sp fs w) = (rA, stA, tA)"
    by (cases "run_cells lib (take 7 notebook) (initial sp fs w)")
  have rA: "rA = None" using assms a by (cases rA) (simp_all add: run_three)
  obtain rB stB tB where b: "run_cells lib [notebook ! 7] stA = (rB, stB, tB)"
    by (cases "run_cells lib [notebook ! 7] stA")
  obtain rC stC tC where c: "run_cells lib (drop 8 notebook) stB = (rC, stC, tC)"
    by (cases "run_cells lib (drop 8 notebook) stB")
  from before_solve_case[where lib = lib and sp = sp and fs = fs and w = w] a rA obtain f m where
    pa: "sys_path stA = sp @ [VStr ''..'']"
      "filters stA = (''ignore'', ''UserWarning'') # remove1 (''ignore'', ''UserWarning'') fs"
      "filter (\<lambda>ev. is_write (action ev)) tA = []"
    and fm: "env stA ''optimus'' = Some f" "module_of f = None"
      "env stA ''model'' = Some m" "module_of m = None"
    by auto
  have rB: "rB = None" using solve_cell[OF _ b] fm(3) by simp
  note pb = solve_cell_frame[OF b]
  obtain E P F W where stB: "stB = \<lparr>env = E, sys_path = P, filters = F, world = W\<rparr>"
    by (cases stB)
  have e: "E ''optimus'' = Some f" "E ''model'' = Some m" "P = sys_path stA" "F = filters stA"
    using pb fm stB by auto
  have run: "run lib (initial sp fs w) = (rC, stC, tA @ tB @ tC)"
    using a rA b rB c by (simp add: run_three)
  then have res: "rC = None" "st' = stC" "t = tA @ tB @ tC" using assms by simp_all
  from after_solve_case[OF e(1) fm(2) e(2) fm(4), where lib = lib and P = P and F = F and W = W] c stB res(1)
  have pc: "sys_path stC = P" "filters stC = F" "env stC ''optimus'' = Some f"
    "map action (filter (\<lambda>ev. is_write (action ev)) tC) =
       [LSetAttr f [''global_parameters'', ''postprocessing'', ''quadrature_order''] (VInt 20)]"
    by auto
  show "sys_path st' = sp @ [VStr ''..'']" using pc(1) e(3) pa(1) res(2) by simp
  show "filters st' = (''ignore'', ''UserWarning'') # remove1 (''ignore'', ''UserWarning'') fs"
    using pc(2) e(4) pa(2) res(2) by simp
  show "\<exists>f. env st' ''optimus'' = Some f \<and>
           map action (filter (\<lambda>ev. is_write (action ev)) t) =
             [LSetAttr f [''global_parameters'', ''postprocessing'', ''quadrature_order'']
                (VInt 20)]"
    using pc(3,4) pa(3) pb res(2,3) by simp
qed

section \<open>The cells of the point cloud\<close>

lemma to_val_case: "to_val r = (case r of Handle h \<Rightarrow> VRef h | Array xs \<Rightarrow> VArr xs)"
  by (cases r) simp_all

lemma invoke_rec:
  "invoke lib s std a \<lparr>env = E, sys_path = P, filters = F, world = W\<rparr> =
     (case std of
        Some m \<Rightarrow>
          (case stdlib m a \<lparr>env = E, sys_path = P, filters = F, world = W\<rparr> of
             (r, st') \<Rightarrow> (own r, st', [\<lparr>site = s, action = a, outcome = own r\<rparr>]))
      | None \<Rightarrow>
          (case lib W a of
             Inl e \<Rightarrow> (Inl (Raised e), \<lparr>env = E, sys_path = P, filters = F, world = W\<rparr>,
                     [\<lparr>site = s, action = a, outcome = Inl (Raised e)\<rparr>])
           | Inr vw \<Rightarrow> (Inr (to_val (fst vw)),
                     \<lparr>env = E, sys_path = P, filters = F, world = snd vw\<rparr>,
                     [\<lparr>site = s, action = a, outcome = Inr (to_val (fst vw))\<rparr>])))"
  by (simp add: invoke_def split: sum.splits option.splits)

lemmas cell_rules = eval_rules invoke_rec stdlib_def to_val_case sum.inject sum.distinct
  pyerr.distinct exn.inject exn.distinct

lemmas cell_congs = eval_congs ret.case_cong_weak

lemma notebook_11:
  "notebook ! 11 = Code [Assign ''n'' (IntL 500),
          Assign ''pointsarray''
            (BinOp (BinOp (Call ''np'' [''random'', ''rand''] [IntL 3, Name ''n''] [])
                      Mult (FloatL (18 / 100)))
               Sub (FloatL (9 / 100)))]"
  by (simp add: notebook_def)

lemma notebook_12:
  "notebook ! 12 = Code [Assign ''points''
            (Call ''optimus'' [''postprocess'', ''VisualiseCloudPoints''] [Name ''model''] []),
          ExprStmt (Call ''points'' [''create_computational_grid''] [Name ''pointsarray''] []),
          ExprStmt (Call ''points'' [''compute_fields''] [] []),
          ExprStmt (Call ''points'' [''display_field''] [] [(''size'', FloatL (9 / 1000))])]"
  by (simp add: notebook_def)

lemma notebook_split: "notebook = take 11 notebook @ [notebook ! 11] @ [notebook ! 12]"
  by (simp add: notebook_def)

lemma cell11_case:
  assumes "rand_valid lib"
  shows "case run_cells lib [notebook ! 11] \<lparr>env = E, sys_path = P, filters = F, world = W\<rparr> of
     (None, st2, t2) \<Rightarrow>
        (\<exists>a. env st2 ''pointsarray'' = Some (VArr a) \<and> shape a 3 500 \<and> in_cloud_range a)
   | (Some e, st2, t2) \<Rightarrow> True"
  unfolding notebook_11
  apply (simp only: cell_rules cong: cell_congs split: sum.split option.split ret.split)
  apply (clarsimp simp: binop_val_def array_arith_def own_def)
  subgoal for f w' a
    using assms[unfolded rand_valid_def, rule_format, of W f 3 500 "[]" "Array a" w']
      affine_bounds
    by (auto simp: shape_def in_cloud_range_def list_all_iff)
  done

lemma cell12_case:
  assumes "E ''pointsarray'' = Some v"
  shows "case run_cells lib [notebook ! 12] \<lparr>env = E, sys_path = P, filters = F, world = W\<rparr> of
     (r, st3, t3) \<Rightarrow>
        (\<forall>ev\<in>set t3. site ev = cloud_site \<longrightarrow>
           (\<exists>f. action ev = LCall f [''create_computational_grid''] [v] []))"
  unfolding notebook_12
  apply (simp only: cell_rules assms cong: cell_congs split: sum.split option.split)
  apply (auto simp: cloud_site_def)
  done

lemma no_cloud_before:
  "cloud_site \<notin> set (sites (take 11 notebook))" "cloud_site \<notin> set (sites [notebook ! 11])"
  by (simp_all add: sites_def statements_def notebook_def cloud_site_def)


lemma no_site_event:
  "run_cells lib cs st = (r, st', t) \<Longrightarrow> s \<notin> set (sites cs) \<Longrightarrow> ev \<in> set t \<Longrightarrow> site ev \<noteq> s"
  using run_cells_sites[of lib cs st r st' t] by auto

section \<open>Concrete runs\<close>


lemma demo_rand_array: "rand_returns_array demo_lib"
  by (auto simp: rand_returns_array_def rand_action_def demo_lib_def split: action.splits if_splits)

lemma demo_rand_valid: "rand_valid demo_lib"
  by (auto simp: rand_valid_def demo_lib_def zeros_def shape_def list_all_iff unit_double_def fl_0)

lemma demo_run_tuple: "run demo_lib (initial [] [] 0) = (None, demo_state, demo_events)"
proof -
  have "fst (run (tidy demo_lib) (initial [] [] 0)) = None"
    by (rule never_raises_tidy) (simp add: demo_lib_def split: action.split)
  then have "fst demo_run = None"
    by (simp only: tidy_id[OF demo_rand_array] demo_run_def)
  then have "demo_run = (None, demo_state, demo_events)"
    by (simp add: prod_eq_iff demo_state_def demo_events_def)
  then show ?thesis by (simp only: demo_run_def)
qed

lemma demo_sites: "map site demo_events = sites notebook"
  using demo_run_tuple by (rule run_sites)

lemma demo_cloud_event:
  "demo_events ! 28 \<in> set demo_events" "site (demo_events ! 28) = cloud_site"
proof -
  have "length (map site demo_events) = 31" by (simp only: demo_sites sites_notebook) simp
  then have len: "length demo_events = 31" by simp
  then show "demo_events ! 28 \<in> set demo_events" by simp
  have "site (demo_events ! 28) = map site demo_events ! 28" using len by simp
  also have "\<dots> = cloud_site" by (simp only: demo_sites sites_notebook) (simp add: cloud_site_def)
  finally show "site (demo_events ! 28) = cloud_site" .
qed

lemma takeWhile_prefix_mono:
  "prefix xs ys \<Longrightarrow> prefix (takeWhile P xs) (takeWhile P ys)"
proof (induction xs arbitrary: ys)
  case Nil
  then show ?case by simp
next
  case (Cons x xs)
  then obtain zs where ys: "ys = x # zs" and p: "prefix xs zs"
    by (cases ys) simp_all
  show ?case using Cons.IH[OF p] by (simp add: ys)
qed

lemmas concrete_rules = eval_rules cut_rules invoke_lib_rec demo_lib_def failing_solve_def
  mesh_lib_def kept_def

lemma failed_run_normal: "fst failed_run = None"
  unfolding failed_run_def
  by (simp only: concrete_rules cong: eval_congs)

lemma failed_run_tail:
  "map (\<lambda>ev. (site ev, isl (outcome ev))) (drop 15 (snd (snd failed_run))) =
     [(SCall ''model'' [''solve''], True),
      (SSetAttr ''optimus'' [''global_parameters'', ''postprocessing'', ''quadrature_order''],
       False),
      (SCall ''optimus'' [''postprocess'', ''VisualisePlane''], False),
      (SCall ''postprocess_plane'' [''create_computational_grid''], False),
      (SCall ''postprocess_plane'' [''compute_fields''], False),
      (SCall ''optimus'' [''postprocess'', ''Visualise3DField''], False),
      (SCall ''postprocess_3D'' [''create_computational_grid''], False),
      (SCall ''postprocess_3D'' [''add_VisualisePlane''], False),
      (SCall ''postprocess_3D'' [''compute_fields''], False),
      (SCall ''postprocess_3D'' [''display_field''], False),
      (SImport ''numpy'', False),
      (SCall ''np'' [''random'', ''rand''], False),
      (SCall ''optimus'' [''postprocess'', ''VisualiseCloudPoints''], False),
      (SCall ''points'' [''create_computational_grid''], False),
      (SCall ''points'' [''compute_fields''], False),
      (SCall ''points'' [''display_field''], False)]"
  unfolding failed_run_def
  apply (simp only: concrete_rules cong: eval_congs)
  apply simp
  done








lemma failed_run_tuple:
  "run failing_solve (initial [] [] 0) = (None, fst (snd failed_run), snd (snd failed_run))"
  using failed_run_normal by (simp add: prod_eq_iff failed_run_def)




section \<open>The claims of the specification\<close>

subsection \<open>Order of the quadrature setting\<close>

text \<open>
  Claim C1: the notebook assigns 20 to
  \<open>optimus.global_parameters.postprocessing.quadrature_order\<close> before any post-processing
  operation; no construction or method call of a post-processing object precedes the
  assignment.

  This does not hold as stated: the mesh viewer \<open>Visualise3DGrid\<close> is constructed, and
  its grid created and displayed, three cells before the assignment. What holds, in
  every run and whether it ends normally or with an exception: the post-processing
  operations performed before the assignment are among those three operations of the
  mesh viewer, so every operation on a viewer of the model comes after the assignment.
\<close>

theorem quadrature_order_before_field_operations:
  assumes "run lib st = (r, st', t)"
  shows "set (filter (postprocess_op (viewers notebook)) (before quadrature_site (map site t)))
     \<subseteq> {SCall ''optimus'' [''postprocess'', ''Visualise3DGrid''],
         SCall ''grids'' [''create_computational_grid''], SCall ''grids'' [''display_field'']}"
proof -
  have "prefix (before quadrature_site (map site t)) (before quadrature_site (sites notebook))"
    unfolding before_def by (rule takeWhile_prefix_mono) (rule run_sites_prefix[OF assms])
  then have "set (before quadrature_site (map site t)) \<subseteq> set (before quadrature_site (sites notebook))"
    by (rule set_mono_prefix)
  then have "set (filter (postprocess_op (viewers notebook)) (before quadrature_site (map site t)))
     \<subseteq> set (filter (postprocess_op (viewers notebook)) (before quadrature_site (sites notebook)))"
    by auto
  then show ?thesis by (simp only: before_quadrature) simp
qed

text \<open>
  The run on the counting library ends normally, and satisfies the conclusion.
\<close>

theorem quadrature_order_before_field_operations_witness:
  "run demo_lib (initial [] [] 0) = (None, demo_state, demo_events) \<and>
   set (filter (postprocess_op (viewers notebook)) (before quadrature_site (map site demo_events)))
     \<subseteq> {SCall ''optimus'' [''postprocess'', ''Visualise3DGrid''],
         SCall ''grids'' [''create_computational_grid''], SCall ''grids'' [''display_field'']}"
  using quadrature_order_before_field_operations[OF demo_run_tuple] demo_run_tuple by simp

text \<open>
  In that run the three operations of the mesh viewer are performed before the
  assignment, so the list of post-processing operations before it is not empty.
\<close>

theorem mesh_viewer_precedes_quadrature_order:
  "filter (postprocess_op (viewers notebook)) (before quadrature_site (map site demo_events)) =
     [SCall ''optimus'' [''postprocess'', ''Visualise3DGrid''],
      SCall ''grids'' [''create_computational_grid''], SCall ''grids'' [''display_field'']]"
  by (simp only: demo_sites before_quadrature)

subsection \<open>Post-processing objects and the solved model\<close>

text \<open>
  Claim C2: every post-processing object is constructed from a solved model, after the
  call of \<open>solve\<close>, and the notebook calls \<open>create_computational_grid\<close>,
  \<open>compute_fields\<close> and \<open>display_field\<close> on each.

  This does not hold as stated. Of the four objects, \<open>grids\<close> is constructed from the two
  meshes before \<open>solve\<close>, and \<open>compute_fields\<close> is never called on it;
  \<open>display_field\<close> is never called on \<open>postprocess_plane\<close>. What holds in every run that
  ends normally: the three objects constructed from \<open>model\<close> are constructed after
  \<open>solve\<close>, the mesh viewer being the only constructor call before it, and the methods
  called on each object are exactly those listed, in that order.
\<close>

theorem viewers_of_the_model:
  assumes "run lib st = (None, st', t)"
  shows "model_viewers notebook = [''postprocess_plane'', ''postprocess_3D'', ''points''] \<and>
    filter is_constructor (map site t) =
      [SCall ''optimus'' [''postprocess'', ''Visualise3DGrid''],
       SCall ''optimus'' [''postprocess'', ''VisualisePlane''],
       SCall ''optimus'' [''postprocess'', ''Visualise3DField''],
       SCall ''optimus'' [''postprocess'', ''VisualiseCloudPoints'']] \<and>
    filter is_constructor (before solve_call (map site t)) =
      [SCall ''optimus'' [''postprocess'', ''Visualise3DGrid'']] \<and>
    calls_on ''grids'' (map site t) = [[''create_computational_grid''], [''display_field'']] \<and>
    calls_on ''postprocess_plane'' (map site t) =
      [[''create_computational_grid''], [''compute_fields'']] \<and>
    calls_on ''postprocess_3D'' (map site t) =
      [[''create_computational_grid''], [''add_VisualisePlane''], [''compute_fields''],
       [''display_field'']] \<and>
    calls_on ''points'' (map site t) =
      [[''create_computational_grid''], [''compute_fields''], [''display_field'']]"
  unfolding run_sites[OF assms] model_viewers_notebook sites_notebook
  by (simp add: is_constructor_def before_def solve_call_def calls_on_def)

text \<open>
  The run on the counting library is such a run.
\<close>

theorem viewers_of_the_model_witness:
  "run demo_lib (initial [] [] 0) = (None, demo_state, demo_events) \<and>
    model_viewers notebook = [''postprocess_plane'', ''postprocess_3D'', ''points''] \<and>
    filter is_constructor (map site demo_events) =
      [SCall ''optimus'' [''postprocess'', ''Visualise3DGrid''],
       SCall ''optimus'' [''postprocess'', ''VisualisePlane''],
       SCall ''optimus'' [''postprocess'', ''Visualise3DField''],
       SCall ''optimus'' [''postprocess'', ''VisualiseCloudPoints'']] \<and>
    filter is_constructor (before solve_call (map site demo_events)) =
      [SCall ''optimus'' [''postprocess'', ''Visualise3DGrid'']] \<and>
    calls_on ''grids'' (map site demo_events) =
      [[''create_computational_grid''], [''display_field'']] \<and>
    calls_on ''postprocess_plane'' (map site demo_events) =
      [[''create_computational_grid''], [''compute_fields'']] \<and>
    calls_on ''postprocess_3D'' (map site demo_events) =
      [[''create_computational_grid''], [''add_VisualisePlane''], [''compute_fields''],
       [''display_field'']] \<and>
    calls_on ''points'' (map site demo_events) =
      [[''create_computational_grid''], [''compute_fields''], [''display_field'']]"
  using viewers_of_the_model[OF demo_run_tuple] demo_run_tuple by simp

text \<open>
  In that run, the mesh viewer is constructed before \<open>solve\<close>, \<open>compute_fields\<close> is not
  among the methods called on \<open>grids\<close>, and \<open>display_field\<close> is not among those called on
  \<open>postprocess_plane\<close>.
\<close>

theorem mesh_viewer_without_solved_model:
  "filter is_constructor (before solve_call (map site demo_events)) =
      [SCall ''optimus'' [''postprocess'', ''Visualise3DGrid'']] \<and>
   [''compute_fields''] \<notin> set (calls_on ''grids'' (map site demo_events)) \<and>
   [''display_field''] \<notin> set (calls_on ''postprocess_plane'' (map site demo_events))"
  unfolding demo_sites sites_notebook
  by (simp add: is_constructor_def before_def solve_call_def calls_on_def)

subsection \<open>Warnings and exceptions\<close>

text \<open>
  Claim C3: the notebook suppresses exactly one warning category, \<open>UserWarning\<close>, with
  \<open>warnings.simplefilter\<close>, and handles no exception: an exception raised by any call
  ends the run, and none of the later calls is performed.

  This does not hold for the call of \<open>solve\<close>. Its cell starts with \<open>%%time\<close>, and that
  magic catches whatever the body of the cell raises, prints the traceback and returns;
  the run goes on with the fifteen later calls. What holds, for every run from a state
  with search path \<open>sp\<close> and warning filters \<open>fs\<close>: an event whose outcome is an exception
  and that is not the call of \<open>solve\<close> is the last event of the run, and its exception
  is the result of the run; the events are, in order, an initial part of the calls of
  the text; \<open>simplefilter\<close> is the only function of \<open>warnings\<close> that the text calls; and
  after a normal run the filters are those of the start with the one entry
  \<open>ignore UserWarning\<close> put in front. The statements themselves have no \<open>try\<close>.
\<close>

theorem exceptions_propagate_except_solve:
  assumes "run lib (initial sp fs w) = (r, st', t)"
  shows "raising_last_but solve_call t r \<and> prefix (map site t) (sites notebook) \<and>
    calls_on ''warnings'' (sites notebook) = [[''simplefilter'']] \<and>
    (r = None \<longrightarrow>
       filters st' = (''ignore'', ''UserWarning'') # remove1 (''ignore'', ''UserWarning'') fs)"
proof -
  have "calls_on ''warnings'' (sites notebook) = [[''simplefilter'']]"
    unfolding sites_notebook by (simp add: calls_on_def)
  moreover have "r = None \<longrightarrow>
       filters st' = (''ignore'', ''UserWarning'') # remove1 (''ignore'', ''UserWarning'') fs"
    using run_globals(2)[of lib sp fs w st' t] assms by auto
  ultimately show ?thesis
    using run_raising[OF assms] run_sites_prefix[OF assms] by blast
qed

text \<open>
  The run on the library whose \<open>solve\<close> raises starts without filters; it ends normally,
  with that single filter.
\<close>

theorem exceptions_propagate_except_solve_witness:
  "run failing_solve (initial [] [] 0) = (None, fst (snd failed_run), snd (snd failed_run)) \<and>
   raising_last_but solve_call (snd (snd failed_run)) None \<and>
   prefix (map site (snd (snd failed_run))) (sites notebook) \<and>
   calls_on ''warnings'' (sites notebook) = [[''simplefilter'']] \<and>
   filters (fst (snd failed_run)) = [(''ignore'', ''UserWarning'')]"
  using exceptions_propagate_except_solve[OF failed_run_tuple] failed_run_tuple by simp

text \<open>
  In that run the call of \<open>solve\<close>, the sixteenth event, raises; it is not the last
  event: the assignment of the quadrature order and the fourteen later calls are
  performed, none raises, and the run ends normally.
\<close>

theorem solve_exception_caught:
  "fst failed_run = None \<and>
   \<not> raising_last (snd (snd failed_run)) (fst failed_run) \<and>
   map (\<lambda>ev. (site ev, isl (outcome ev))) (drop 15 (snd (snd failed_run))) =
     [(SCall ''model'' [''solve''], True),
      (SSetAttr ''optimus'' [''global_parameters'', ''postprocessing'', ''quadrature_order''],
       False),
      (SCall ''optimus'' [''postprocess'', ''VisualisePlane''], False),
      (SCall ''postprocess_plane'' [''create_computational_grid''], False),
      (SCall ''postprocess_plane'' [''compute_fields''], False),
      (SCall ''optimus'' [''postprocess'', ''Visualise3DField''], False),
      (SCall ''postprocess_3D'' [''create_computational_grid''], False),
      (SCall ''postprocess_3D'' [''add_VisualisePlane''], False),
      (SCall ''postprocess_3D'' [''compute_fields''], False),
      (SCall ''postprocess_3D'' [''display_field''], False),
      (SImport ''numpy'', False),
      (SCall ''np'' [''random'', ''rand''], False),
      (SCall ''optimus'' [''postprocess'', ''VisualiseCloudPoints''], False),
      (SCall ''points'' [''create_computational_grid''], False),
      (SCall ''points'' [''compute_fields''], False),
      (SCall ''points'' [''display_field''], False)]"
proof -
  define T where "T = snd (snd failed_run)"
  note tail = failed_run_tail[folded T_def]
  have "length (map (\<lambda>ev. (site ev, isl (outcome ev))) (drop 15 T)) = 16"
    by (simp only: tail) simp
  then have len: "length T = 31" by simp
  have "map (\<lambda>ev. (site ev, isl (outcome ev))) (drop 15 T) ! 0 = (SCall ''model'' [''solve''], True)"
    by (simp only: tail) simp
  then have "isl (outcome (T ! 15))" using len by simp
  then obtain x where x: "outcome (T ! 15) = Inl x" by (cases "outcome (T ! 15)") simp_all
  have "\<not> raising_last T (fst failed_run)"
  proof
    assume rl: "raising_last T (fst failed_run)"
    have "15 < length T" using len by simp
    with rl x have "Suc 15 = length T" unfolding raising_last_def by blast
    then show False using len by simp
  qed
  then show ?thesis using failed_run_normal tail by (simp add: T_def)
qed

subsection \<open>Origin of the arguments\<close>

text \<open>
  Claim C4: the notebook does not transform what it passes on; every argument of a call
  of the external library is a literal parameter, not a value computed by the notebook's
  own arithmetic or array construction.

  This does not hold as stated. Three arguments are computed by the notebook:
  \<open>radius\<close>, which is \<open>radius_of_curvature / 2\<close>, and \<open>location\<close>, which holds
  \<open>- radius_of_curvature\<close>, both passed to \<open>create_bowl\<close>; and \<open>pointsarray\<close>, which is
  \<open>np.random.rand(3, n) * 0.18 - 0.09\<close>, passed to \<open>create_computational_grid\<close>. What
  holds: these are the only three; every other argument is a literal, a variable bound
  to a literal, a value returned by a library, or a tuple or list of such.
\<close>

theorem arguments_literal_or_listed:
  "computed_args notebook =
     [(SCall ''optimus'' [''source'', ''create_bowl''], Name ''radius''),
      (SCall ''optimus'' [''source'', ''create_bowl''], Name ''location''),
      (SCall ''points'' [''create_computational_grid''], Name ''pointsarray'')] \<and>
   computed_vars Map.empty (statements notebook) =
     [(''radius'', BinOp (Name ''radius_of_curvature'') Div (IntL 2)),
      (''location'', TupleE [IntL 0, IntL 0, Neg (Name ''radius_of_curvature'')]),
      (''pointsarray'',
         BinOp (BinOp (Call ''np'' [''random'', ''rand''] [IntL 3, Name ''n''] [])
                      Mult (FloatL (18 / 100)))
               Sub (FloatL (9 / 100)))]"
  by (simp add: computed_args_def statements_def notebook_def)

text \<open>
  The argument \<open>radius\<close> of \<open>create_bowl\<close> is bound to the quotient
  \<open>radius_of_curvature / 2\<close>, which the notebook computes.
\<close>

theorem radius_is_computed:
  "(SCall ''optimus'' [''source'', ''create_bowl''], Name ''radius'')
     \<in> set (computed_args notebook) \<and>
   (''radius'', BinOp (Name ''radius_of_curvature'') Div (IntL 2))
     \<in> set (computed_vars Map.empty (statements notebook))"
  by (simp add: computed_args_def statements_def notebook_def)

subsection \<open>State outside the variables of the notebook\<close>

text \<open>
  Claim C5: the only state outside its own variables that the notebook changes is the
  quadrature order of the post-processing; it modifies no other global or library state.

  This does not hold as stated: the first cell appends \<open>'..'\<close> to \<open>sys.path\<close>, and the
  sixth cell puts a filter in the list of warning filters of the interpreter; both are
  global to the Python process. What holds for every run that ends normally: the
  quadrature order is the only attribute of a library object that the notebook assigns,
  once, with the value 20; the search path has grown by \<open>'..'\<close>; and the warning filters
  have the entry \<open>ignore UserWarning\<close> in front. All other changes of state happen
  inside the calls of the library.
\<close>

theorem global_state_written:
  assumes "run lib (initial sp fs w) = (None, st', t)"
  shows "(\<exists>f. env st' ''optimus'' = Some f \<and>
        map action (filter (\<lambda>ev. is_write (action ev)) t) =
          [LSetAttr f [''global_parameters'', ''postprocessing'', ''quadrature_order'']
             (VInt 20)]) \<and>
     sys_path st' = sp @ [VStr ''..''] \<and>
     filters st' = (''ignore'', ''UserWarning'') # remove1 (''ignore'', ''UserWarning'') fs"
  using run_globals[OF assms] by simp

text \<open>
  The run on the counting library, from an empty search path and no filters.
\<close>

theorem global_state_written_witness:
  "run demo_lib (initial [] [] 0) = (None, demo_state, demo_events) \<and>
   (\<exists>f. env demo_state ''optimus'' = Some f \<and>
        map action (filter (\<lambda>ev. is_write (action ev)) demo_events) =
          [LSetAttr f [''global_parameters'', ''postprocessing'', ''quadrature_order'']
             (VInt 20)]) \<and>
   sys_path demo_state = [VStr ''..''] \<and>
   filters demo_state = [(''ignore'', ''UserWarning'')]"
  using global_state_written[OF demo_run_tuple] demo_run_tuple by simp

text \<open>
  In that run the search path and the warning filters at the end differ from those at
  the start.
\<close>

theorem search_path_and_filters_change:
  "sys_path demo_state \<noteq> sys_path (initial [] [] 0 :: (nat, nat) state) \<and>
   filters demo_state \<noteq> filters (initial [] [] 0 :: (nat, nat) state)"
  using run_globals(1,2)[OF demo_run_tuple] by (simp add: initial_def)

subsection \<open>Straight-line execution\<close>

text \<open>
  Claim C6: the notebook is a straight-line program; when no call raises, each call of
  the external library is performed exactly once for each occurrence in the text, in the
  order of the text.

  The statements have no branch and no loop. In every run that ends normally, for every
  library and from every state, the events come from exactly the following thirty-one
  places, in this order: the four imports, the twenty-six calls, \<open>solve\<close> among them, and
  the attribute assignment of the text, each once.
\<close>

theorem calls_once_in_textual_order:
  assumes "run lib st = (None, st', t)"
  shows "map site t =
    [SImport ''sys'', SCall ''sys'' [''path'', ''append''], SImport ''optimus'',
     SCall ''optimus'' [''source'', ''create_bowl''],
     SCall ''optimus'' [''material'', ''load_material''],
     SCall ''optimus'' [''material'', ''load_material''],
     SCall ''optimus'' [''geometry'', ''load'', ''import_grid''],
     SCall ''optimus'' [''geometry'', ''load'', ''import_grid''],
     SImport ''warnings'', SCall ''warnings'' [''simplefilter''],
     SCall ''optimus'' [''postprocess'', ''Visualise3DGrid''],
     SCall ''grids'' [''create_computational_grid''], SCall ''grids'' [''display_field''],
     SCall ''optimus'' [''utils'', ''mesh'', ''scale_mesh''],
     SCall ''optimus'' [''model'', ''create_default_model''],
     SCall ''model'' [''solve''],
     SSetAttr ''optimus'' [''global_parameters'', ''postprocessing'', ''quadrature_order''],
     SCall ''optimus'' [''postprocess'', ''VisualisePlane''],
     SCall ''postprocess_plane'' [''create_computational_grid''],
     SCall ''postprocess_plane'' [''compute_fields''],
     SCall ''optimus'' [''postprocess'', ''Visualise3DField''],
     SCall ''postprocess_3D'' [''create_computational_grid''],
     SCall ''postprocess_3D'' [''add_VisualisePlane''],
     SCall ''postprocess_3D'' [''compute_fields''],
     SCall ''postprocess_3D'' [''display_field''],
     SImport ''numpy'', SCall ''np'' [''random'', ''rand''],
     SCall ''optimus'' [''postprocess'', ''VisualiseCloudPoints''],
     SCall ''points'' [''create_computational_grid''],
     SCall ''points'' [''compute_fields''], SCall ''points'' [''display_field'']]"
  using run_sites[OF assms] by (simp only: sites_notebook)

text \<open>
  The run on the counting library.
\<close>

theorem calls_once_in_textual_order_witness:
  "run demo_lib (initial [] [] 0) = (None, demo_state, demo_events) \<and>
   map site demo_events =
    [SImport ''sys'', SCall ''sys'' [''path'', ''append''], SImport ''optimus'',
     SCall ''optimus'' [''source'', ''create_bowl''],
     SCall ''optimus'' [''material'', ''load_material''],
     SCall ''optimus'' [''material'', ''load_material''],
     SCall ''optimus'' [''geometry'', ''load'', ''import_grid''],
     SCall ''optimus'' [''geometry'', ''load'', ''import_grid''],
     SImport ''warnings'', SCall ''warnings'' [''simplefilter''],
     SCall ''optimus'' [''postprocess'', ''Visualise3DGrid''],
     SCall ''grids'' [''create_computational_grid''], SCall ''grids'' [''display_field''],
     SCall ''optimus'' [''utils'', ''mesh'', ''scale_mesh''],
     SCall ''optimus'' [''model'', ''create_default_model''],
     SCall ''model'' [''solve''],
     SSetAttr ''optimus'' [''global_parameters'', ''postprocessing'', ''quadrature_order''],
     SCall ''optimus'' [''postprocess'', ''VisualisePlane''],
     SCall ''postprocess_plane'' [''create_computational_grid''],
     SCall ''postprocess_plane'' [''compute_fields''],
     SCall ''optimus'' [''postprocess'', ''Visualise3DField''],
     SCall ''postprocess_3D'' [''create_computational_grid''],
     SCall ''postprocess_3D'' [''add_VisualisePlane''],
     SCall ''postprocess_3D'' [''compute_fields''],
     SCall ''postprocess_3D'' [''display_field''],
     SImport ''numpy'', SCall ''np'' [''random'', ''rand''],
     SCall ''optimus'' [''postprocess'', ''VisualiseCloudPoints''],
     SCall ''points'' [''create_computational_grid''],
     SCall ''points'' [''compute_fields''], SCall ''points'' [''display_field'']]"
  using calls_once_in_textual_order[OF demo_run_tuple] demo_run_tuple by simp

subsection \<open>The value returned by \<open>solve\<close>\<close>

text \<open>
  Claim C7: the value that \<open>model.solve()\<close> returns is neither bound to a variable nor
  inspected; what is computed afterwards does not depend on it.

  For every library, every start state and every replacement \<open>g\<close> of the value that
  \<open>solve\<close> returns, the run of the notebook ends with the same result and in the same
  state, after the same events with the same actions and outcomes, except for the
  value recorded as returned by \<open>solve\<close> itself. The only statement of the text with a
  call of \<open>solve\<close> is the expression statement \<open>model.solve()\<close>.
\<close>

theorem solve_value_unused:
  "same_run (run lib st) (run (with_solve_result g lib) st) \<and>
   filter (\<lambda>s. \<not> no_solve (sites_stmt s)) (statements notebook) =
     [ExprStmt (Call ''model'' [''solve''] [] [])]"
proof
  show "same_run (run lib st) (run (with_solve_result g lib) st)"
    unfolding run_def by (rule run_cells_discard) (rule notebook_discards_solve)
  show "filter (\<lambda>s. \<not> no_solve (sites_stmt s)) (statements notebook) =
     [ExprStmt (Call ''model'' [''solve''] [] [])]"
    by (simp add: statements_def notebook_def)
qed

text \<open>
  The counting library, and the same library with \<open>solve\<close> returning an array.
\<close>

theorem solve_value_unused_witness:
  "same_run (run demo_lib (initial [] [] 0))
     (run (with_solve_result (\<lambda>r. Array [[1]]) demo_lib) (initial [] [] 0))"
  using solve_value_unused[of demo_lib "initial [] [] 0" "\<lambda>r. Array [[1]]"] by simp

subsection \<open>No exception of the notebook's own\<close>



subsection \<open>The second mesh\<close>




subsection \<open>The point cloud\<close>

text \<open>
  Claim C10: the array passed to \<open>create_computational_grid\<close> of the point cloud has
  shape \<open>(3, 500)\<close>, and each entry lies in the interval from \<open>-0.09\<close> to \<open>0.09\<close>, the upper
  end excluded.

  With a \<open>rand\<close> that returns arrays of the shape asked for, of binary64 numbers from 0
  to 1, 1 excluded: in every run, an event that comes from the call
  \<open>points.create_computational_grid\<close> passes one array, of 3 rows of 500 entries, each
  at least \<open>-9/100\<close> and less than \<open>9/100\<close>. The entries are the results of the rounded
  operations of binary64 on the rounded constants \<open>0.18\<close> and \<open>0.09\<close>.
\<close>

theorem point_cloud_in_range:
  assumes "rand_valid lib" and "run lib st = (r, st', t)"
    and "ev \<in> set t" and "site ev = cloud_site"
  shows "\<exists>f a. action ev = LCall f [''create_computational_grid''] [VArr a] [] \<and>
           shape a 3 500 \<and> in_cloud_range a"
proof -
  obtain r1 st1 t1 where e1: "run_cells lib (take 11 notebook) st = (r1, st1, t1)"
    by (cases "run_cells lib (take 11 notebook) st")
  obtain r2 st2 t2 where e2: "run_cells lib [notebook ! 11] st1 = (r2, st2, t2)"
    by (cases "run_cells lib [notebook ! 11] st1")
  obtain r3 st3 t3 where e3: "run_cells lib [notebook ! 12] st2 = (r3, st3, t3)"
    by (cases "run_cells lib [notebook ! 12] st2")
  have n1: "ev \<notin> set t1"
    using no_site_event[OF e1 no_cloud_before(1)] assms(4) by blast
  have n2: "ev \<notin> set t2"
    using no_site_event[OF e2 no_cloud_before(2)] assms(4) by blast
  have run: "run lib st =
     (case run_cells lib (take 11 notebook) st of
        (Some e, st1, t1) \<Rightarrow> (Some e, st1, t1)
      | (None, st1, t1) \<Rightarrow>
          (case (case run_cells lib [notebook ! 11] st1 of
                  (Some e, st2, t2) \<Rightarrow> (Some e, st2, t2)
                | (None, st2, t2) \<Rightarrow>
                    (case run_cells lib [notebook ! 12] st2 of (r, st3, t3) \<Rightarrow> (r, st3, t2 @ t3)))
           of (r, st2, t2) \<Rightarrow> (r, st2, t1 @ t2)))"
    unfolding run_def by (subst notebook_split) (simp only: run_cells_append)
  show ?thesis
  proof (cases r1)
    case (Some e)
    then have "t = t1" using assms(2) run e1 by simp
    then show ?thesis using assms(3) n1 by simp
  next
    case r1: None
    show ?thesis
    proof (cases r2)
      case (Some e)
      then have "t = t1 @ t2" using assms(2) run e1 r1 e2 by simp
      then show ?thesis using assms(3) n1 n2 by simp
    next
      case r2: None
      have t: "t = t1 @ t2 @ t3" using assms(2) run e1 r1 e2 r2 e3 by simp
      then have ev3: "ev \<in> set t3" using assms(3) n1 n2 by simp
      obtain E P F W where st1: "st1 = \<lparr>env = E, sys_path = P, filters = F, world = W\<rparr>"
        by (cases st1)
      from cell11_case[OF assms(1), of E P F W] e2 r2 st1 obtain a where
        a: "env st2 ''pointsarray'' = Some (VArr a)" "shape a 3 500" "in_cloud_range a"
        by auto
      obtain E2 P2 F2 W2 where st2: "st2 = \<lparr>env = E2, sys_path = P2, filters = F2, world = W2\<rparr>"
        by (cases st2)
      have "E2 ''pointsarray'' = Some (VArr a)" using a(1) st2 by simp
      from cell12_case[of E2 "VArr a" lib P2 F2 W2, OF this] e3 st2 ev3 assms(4) obtain f where
        "action ev = LCall f [''create_computational_grid''] [VArr a] []" by auto
      then show ?thesis using a by blast
    qed
  qed
qed

text \<open>
  In the run on the counting library, the twenty-ninth event is that call.
\<close>

theorem point_cloud_in_range_witness:
  "rand_valid demo_lib \<and>
   run demo_lib (initial [] [] 0) = (None, demo_state, demo_events) \<and>
   demo_events ! 28 \<in> set demo_events \<and> site (demo_events ! 28) = cloud_site \<and>
   (\<exists>f a. action (demo_events ! 28) = LCall f [''create_computational_grid''] [VArr a] [] \<and>
           shape a 3 500 \<and> in_cloud_range a)"
  using point_cloud_in_range[OF demo_rand_valid demo_run_tuple demo_cloud_event]
    demo_rand_valid demo_run_tuple demo_cloud_event by simp

end
